theory Spec2Isabelle
  imports Main "HOL-Library.Word" "HOL-Library.Signed_Division"
begin

unbundle bit_operations_syntax

section \<open>ST7735 driver for the CH32V003: data model\<close>

text \<open>
  The driver of \<^verbatim>\<open>Examples/DrawTest/st7735.c\<close>. The target is a 32-bit RISC-V
  core: \<^verbatim>\<open>int\<close> has 32 bits, \<^verbatim>\<open>char\<close> is unsigned, \<^verbatim>\<open>uint16_t\<close> and
  \<^verbatim>\<open>int16_t\<close> operands are promoted to \<^verbatim>\<open>int\<close> and cut back to 16 bits when they
  are stored or passed, which on words is arithmetic modulo \<open>2 ^ 16\<close>. Signed
  comparisons read a word through \<open>sint\<close>.

  The model covers the display state, the addressing window and the drawing and text
  functions. \<^verbatim>\<open>SPI_init\<close> and \<^verbatim>\<open>tft_init\<close> only program peripheral registers and
  are left out. The two busy-wait loops on the SPI and DMA status flags are taken to
  end, as they do when the bus is not stalled.
\<close>

type_synonym u8 = "8 word"
type_synonym u16 = "16 word"
type_synonym i16 = "16 word"
type_synonym i32 = "32 word"

text \<open>
  The constants of \<^verbatim>\<open>st7735.h\<close>, which the driver includes and which fix the panel:
  \<^verbatim>\<open>ST7735_WIDTH\<close>, \<^verbatim>\<open>ST7735_HEIGHT\<close>, \<^verbatim>\<open>ST7735_X_OFFSET\<close> and
  \<^verbatim>\<open>ST7735_Y_OFFSET\<close>. Every function that depends on them takes them as a
  parameter. The offsets are only ever added to 16-bit coordinates, so they are kept
  modulo \<open>2 ^ 16\<close>.
\<close>

record config =
  ST7735_WIDTH :: nat
  ST7735_HEIGHT :: nat
  ST7735_X_OFFSET :: u16
  ST7735_Y_OFFSET :: u16

text \<open>
  What the driver does to the outside world and to its scratch buffer, in program
  order: the chip-select and data/command lines, a byte written to the SPI data
  register, a DMA transfer (the bytes at the source address, their number, the repeat
  count), and a store into the scratch buffer (index, byte).
\<close>

datatype event =
    CS_Low
  | CS_High
  | DC_Low
  | DC_High
  | SPI_Byte u8
  | DMA_Block "u8 list" u16 u16
  | Buf_Store nat u8

text \<open>
  The file-level variables: cursor, colours, the scratch buffer
  \<^verbatim>\<open>buffer[ST7735_WIDTH << 1]\<close> and the static \<^verbatim>\<open>str[12]\<close> of
  \<^verbatim>\<open>tft_print_number\<close>, both as stores from index to byte whose bounds are checked
  at every write. The trace collects the events.
\<close>

record state =
  cursor_x :: u16
  cursor_y :: u16
  color :: u16
  bg_color :: u16
  buffer :: "nat \<Rightarrow> u8"
  str :: "nat \<Rightarrow> u8"
  trace :: "event list"

text \<open>
  C leaves a store outside an array and a signed overflow undefined; the model stops
  with an error value there.
\<close>

datatype error = BufferOverflow | SignedOverflow

definition emit :: "event \<Rightarrow> state \<Rightarrow> state" where
  "emit e s = s\<lparr>trace := trace s @ [e]\<rparr>"

text \<open>
  The two bytes of a 16-bit value as the code takes them: \<^verbatim>\<open>v >> 8\<close> and \<^verbatim>\<open>v\<close>,
  each cut to \<^verbatim>\<open>uint8_t\<close>.
\<close>

definition hi_byte :: "u16 \<Rightarrow> u8" where
  "hi_byte v = ucast (drop_bit 8 v)"

definition lo_byte :: "u16 \<Rightarrow> u8" where
  "lo_byte v = ucast v"

section \<open>Transport\<close>

text \<open>
  The macros on the control lines and the two send functions, each as the event it
  causes. \<^verbatim>\<open>BEGIN_WRITE\<close> and \<^verbatim>\<open>END_WRITE\<close> are recorded where the code invokes
  them; with \<^verbatim>\<open>ST7735_NO_CS\<close> defined they expand to nothing on the hardware.
\<close>

definition DATA_MODE :: "state \<Rightarrow> state" where
  "DATA_MODE s = emit DC_High s"

definition COMMAND_MODE :: "state \<Rightarrow> state" where
  "COMMAND_MODE s = emit DC_Low s"

definition BEGIN_WRITE :: "state \<Rightarrow> state" where
  "BEGIN_WRITE s = emit CS_Low s"

definition END_WRITE :: "state \<Rightarrow> state" where
  "END_WRITE s = emit CS_High s"

definition SPI_send :: "u8 \<Rightarrow> state \<Rightarrow> state" where
  "SPI_send data s = emit (SPI_Byte data) s"

text \<open>\<^verbatim>\<open>SPI_send_DMA(buffer, size, repeat)\<close> with the scratch buffer as source.\<close>

definition SPI_send_DMA :: "u16 \<Rightarrow> u16 \<Rightarrow> state \<Rightarrow> state" where
  "SPI_send_DMA size' repeat s =
     emit (DMA_Block (map (buffer s) [0 ..< unat size']) size' repeat) s"

text \<open>The same call with a caller-owned source (\<^verbatim>\<open>tft_draw_bitmap\<close>).\<close>

definition SPI_send_DMA_from :: "(nat \<Rightarrow> u8) \<Rightarrow> u16 \<Rightarrow> u16 \<Rightarrow> state \<Rightarrow> state" where
  "SPI_send_DMA_from src size' repeat s =
     emit (DMA_Block (map src [0 ..< unat size']) size' repeat) s"

definition ST7735_CASET :: u8 where "ST7735_CASET = 0x2A"
definition ST7735_RASET :: u8 where "ST7735_RASET = 0x2B"
definition ST7735_RAMWR :: u8 where "ST7735_RAMWR = 0x2C"

definition write_command_8 :: "u8 \<Rightarrow> state \<Rightarrow> state" where
  "write_command_8 cmd s = SPI_send cmd (COMMAND_MODE s)"

definition write_data_8 :: "u8 \<Rightarrow> state \<Rightarrow> state" where
  "write_data_8 data s = SPI_send data (DATA_MODE s)"

definition write_data_16 :: "u16 \<Rightarrow> state \<Rightarrow> state" where
  "write_data_16 data s = SPI_send (lo_byte data) (SPI_send (hi_byte data) (DATA_MODE s))"

section \<open>Display state accessors and the addressing window\<close>

definition tft_set_cursor :: "config \<Rightarrow> u16 \<Rightarrow> u16 \<Rightarrow> state \<Rightarrow> state" where
  "tft_set_cursor cfg x y s =
     s\<lparr>cursor_x := x + ST7735_X_OFFSET cfg, cursor_y := y + ST7735_Y_OFFSET cfg\<rparr>"

definition tft_set_color :: "u16 \<Rightarrow> state \<Rightarrow> state" where
  "tft_set_color c s = s\<lparr>color := c\<rparr>"

definition tft_set_background_color :: "u16 \<Rightarrow> state \<Rightarrow> state" where
  "tft_set_background_color c s = s\<lparr>bg_color := c\<rparr>"

definition tft_set_window :: "u16 \<Rightarrow> u16 \<Rightarrow> u16 \<Rightarrow> u16 \<Rightarrow> state \<Rightarrow> state" where
  "tft_set_window x0 y0 x1 y1 s =
     (let s1 = write_command_8 ST7735_CASET s;
          s2 = write_data_16 x0 s1;
          s3 = write_data_16 x1 s2;
          s4 = write_command_8 ST7735_RASET s3;
          s5 = write_data_16 y0 s4;
          s6 = write_data_16 y1 s5
      in write_command_8 ST7735_RAMWR s6)"

definition tft_draw_pixel :: "config \<Rightarrow> u16 \<Rightarrow> u16 \<Rightarrow> u16 \<Rightarrow> state \<Rightarrow> state" where
  "tft_draw_pixel cfg x y c s =
     (let x = x + ST7735_X_OFFSET cfg;
          y = y + ST7735_Y_OFFSET cfg;
          s1 = BEGIN_WRITE s;
          s2 = tft_set_window x y x y s1;
          s3 = write_data_16 c s2
      in END_WRITE s3)"

section \<open>Scratch buffer and the fill loops\<close>

text \<open>
  \<^verbatim>\<open>buffer[sz++] = v\<close>: the array has \<^verbatim>\<open>ST7735_WIDTH << 1\<close> elements; \<^verbatim>\<open>sz\<close> is a
  \<^verbatim>\<open>uint16_t\<close>, incremented by the caller of this function.
\<close>

definition buffer_store :: "config \<Rightarrow> u16 \<Rightarrow> u8 \<Rightarrow> state \<Rightarrow> error + state" where
  "buffer_store cfg sz v s =
     (if unat sz < 2 * ST7735_WIDTH cfg
      then Inr (emit (Buf_Store (unat sz) v) (s\<lparr>buffer := (buffer s)(unat sz := v)\<rparr>))
      else Inl BufferOverflow)"

text \<open>
  The loop of \<^verbatim>\<open>tft_fill_rect\<close>,
  \<^verbatim>\<open>for (uint16_t x = 0; x < width; x++) { buffer[sz++] = color >> 8; buffer[sz++] = color; }\<close>,
  from the current \<open>x\<close> and \<open>sz\<close>.
\<close>

function fill_rect_loop ::
  "config \<Rightarrow> u16 \<Rightarrow> u16 \<Rightarrow> u16 \<Rightarrow> u16 \<Rightarrow> state \<Rightarrow> error + (u16 \<times> state)" where
  "fill_rect_loop cfg width c x sz s =
     (if x < width then
        (case buffer_store cfg sz (hi_byte c) s of
           Inl e \<Rightarrow> Inl e
         | Inr s1 \<Rightarrow>
             (case buffer_store cfg (sz + 1) (lo_byte c) s1 of
                Inl e \<Rightarrow> Inl e
              | Inr s2 \<Rightarrow> fill_rect_loop cfg width c (x + 1) (sz + 2) s2))
      else Inr (sz, s))"
  by pat_completeness auto
termination
proof (relation "measure (\<lambda>(cfg, width, c, x, sz, s). unat width - unat x)")
  show "wf (measure (\<lambda>(cfg, width, c, x, sz, s). unat width - unat x))"
    by simp
next
  fix cfg :: config and width c x sz :: u16 and s s1 s2 :: state
  assume "x < width"
  then have lt: "unat x < unat width"
    by (simp add: word_less_nat_alt)
  have "unat width < 65536"
    using unsigned_less [of width, where 'a = nat] by simp
  with lt have "unat (x + 1) = Suc (unat x)"
    by (simp add: unat_word_ariths)
  with lt show "((cfg, width, c, x + 1, sz + 2, s2), (cfg, width, c, x, sz, s))
             \<in> measure (\<lambda>(cfg, width, c, x, sz, s). unat width - unat x)"
    by simp
qed

declare fill_rect_loop.simps [simp del]

text \<open>
  The loop of the two fast line helpers,
  \<^verbatim>\<open>for (int16_t j = 0; j < n; j++) { buffer[sz++] = color >> 8; buffer[sz++] = color; }\<close>
  with \<open>n\<close> the height (vertical) or the width (horizontal): the same text in both.
\<close>

function fast_line_loop ::
  "config \<Rightarrow> i16 \<Rightarrow> u16 \<Rightarrow> i16 \<Rightarrow> u16 \<Rightarrow> state \<Rightarrow> error + (u16 \<times> state)" where
  "fast_line_loop cfg n c j sz s =
     (if j <s n then
        (case buffer_store cfg sz (hi_byte c) s of
           Inl e \<Rightarrow> Inl e
         | Inr s1 \<Rightarrow>
             (case buffer_store cfg (sz + 1) (lo_byte c) s1 of
                Inl e \<Rightarrow> Inl e
              | Inr s2 \<Rightarrow> fast_line_loop cfg n c (j + 1) (sz + 2) s2))
      else Inr (sz, s))"
  by pat_completeness auto
termination
proof (relation "measure (\<lambda>(cfg, n, c, j, sz, s). nat (sint n - sint j))")
  show "wf (measure (\<lambda>(cfg, n, c, j, sz, s). nat (sint n - sint j)))"
    by simp
next
  fix cfg :: config and n c j sz :: u16 and s s1 s2 :: state
  assume "j <s n"
  then have lt: "sint j < sint n"
    by (simp add: word_sless_alt)
  have "sint n \<le> 32767"
    using sint_lt [of n] by simp
  with lt have "sint (j + 1) = sint j + 1"
    using sint_ge [of j] by (simp add: sint_word_ariths signed_take_bit_int_eq_self)
  with lt show "((cfg, n, c, j + 1, sz + 2, s2), (cfg, n, c, j, sz, s))
             \<in> measure (\<lambda>(cfg, n, c, j, sz, s). nat (sint n - sint j))"
    by simp
qed

declare fast_line_loop.simps [simp del]

section \<open>Graphics primitives\<close>

definition tft_fill_rect ::
  "config \<Rightarrow> u16 \<Rightarrow> u16 \<Rightarrow> u16 \<Rightarrow> u16 \<Rightarrow> u16 \<Rightarrow> state \<Rightarrow> error + state" where
  "tft_fill_rect cfg x y width height c s =
     (let x = x + ST7735_X_OFFSET cfg;
          y = y + ST7735_Y_OFFSET cfg
      in case fill_rect_loop cfg width c 0 0 s of
           Inl e \<Rightarrow> Inl e
         | Inr (sz, s1) \<Rightarrow>
             (let s2 = BEGIN_WRITE s1;
                  s3 = tft_set_window x y (x + width - 1) (y + height - 1) s2;
                  s4 = DATA_MODE s3;
                  s5 = SPI_send_DMA sz height s4
              in Inr (END_WRITE s5)))"

text \<open>
  \<^verbatim>\<open>tft_draw_bitmap\<close>: the size argument \<^verbatim>\<open>width * height << 1\<close> is computed in
  \<^verbatim>\<open>int\<close> and cut to \<^verbatim>\<open>uint16_t\<close> when passed.
\<close>

definition tft_draw_bitmap ::
  "config \<Rightarrow> u16 \<Rightarrow> u16 \<Rightarrow> u16 \<Rightarrow> u16 \<Rightarrow> (nat \<Rightarrow> u8) \<Rightarrow> state \<Rightarrow> error + state" where
  "tft_draw_bitmap cfg x y width height bitmap s =
     (let x = x + ST7735_X_OFFSET cfg;
          y = y + ST7735_Y_OFFSET cfg;
          s1 = BEGIN_WRITE s;
          s2 = tft_set_window x y (x + width - 1) (y + height - 1) s1;
          s3 = DATA_MODE s2
      in if 2 * (unat width * unat height) < 2 ^ 31
         then Inr (END_WRITE
                (SPI_send_DMA_from bitmap (of_nat (2 * (unat width * unat height))) 1 s3))
         else Inl SignedOverflow)"

text \<open>
  The static helpers \<^verbatim>\<open>_tft_draw_fast_v_line\<close>, \<^verbatim>\<open>_tft_draw_fast_h_line\<close> and
  \<^verbatim>\<open>_tft_draw_line\<close> carry the prefix \<open>static\<close> here in place of the leading
  underscore.
\<close>

definition static_tft_draw_fast_v_line ::
  "config \<Rightarrow> i16 \<Rightarrow> i16 \<Rightarrow> i16 \<Rightarrow> u16 \<Rightarrow> state \<Rightarrow> error + state" where
  "static_tft_draw_fast_v_line cfg x y h c s =
     (let x = x + ST7735_X_OFFSET cfg;
          y = y + ST7735_Y_OFFSET cfg
      in case fast_line_loop cfg h c 0 0 s of
           Inl e \<Rightarrow> Inl e
         | Inr (sz, s1) \<Rightarrow>
             (let s2 = BEGIN_WRITE s1;
                  s3 = tft_set_window x y x (y + h - 1) s2;
                  s4 = DATA_MODE s3;
                  s5 = SPI_send_DMA sz 1 s4
              in Inr (END_WRITE s5)))"

definition static_tft_draw_fast_h_line ::
  "config \<Rightarrow> i16 \<Rightarrow> i16 \<Rightarrow> i16 \<Rightarrow> u16 \<Rightarrow> state \<Rightarrow> error + state" where
  "static_tft_draw_fast_h_line cfg x y w c s =
     (let x = x + ST7735_X_OFFSET cfg;
          y = y + ST7735_Y_OFFSET cfg
      in case fast_line_loop cfg w c 0 0 s of
           Inl e \<Rightarrow> Inl e
         | Inr (sz, s1) \<Rightarrow>
             (let s2 = BEGIN_WRITE s1;
                  s3 = tft_set_window x y (x + w - 1) y s2;
                  s4 = DATA_MODE s3;
                  s5 = SPI_send_DMA sz 1 s4
              in Inr (END_WRITE s5)))"

definition tft_draw_rect ::
  "config \<Rightarrow> u16 \<Rightarrow> u16 \<Rightarrow> u16 \<Rightarrow> u16 \<Rightarrow> u16 \<Rightarrow> state \<Rightarrow> error + state" where
  "tft_draw_rect cfg x y width height c s =
     (case static_tft_draw_fast_h_line cfg x y width c s of
        Inl e \<Rightarrow> Inl e
      | Inr s1 \<Rightarrow>
     (case static_tft_draw_fast_h_line cfg x (y + height - 1) width c s1 of
        Inl e \<Rightarrow> Inl e
      | Inr s2 \<Rightarrow>
     (case static_tft_draw_fast_v_line cfg x y height c s2 of
        Inl e \<Rightarrow> Inl e
      | Inr s3 \<Rightarrow> static_tft_draw_fast_v_line cfg (x + width - 1) y height c s3)))"

section \<open>Text\<close>

text \<open>
  The table \<^verbatim>\<open>font\<close> of \<^verbatim>\<open>font5x7.h\<close>, five column bytes for each character code, is
  a parameter: a function from index to byte. \<^verbatim>\<open>start\<close> is the index
  \<^verbatim>\<open>c + (c << 2)\<close> of the glyph's first column.

  The inner loop of \<^verbatim>\<open>tft_print_char\<close>, over the columns \<open>j\<close> of bit row \<open>i\<close>. The
  counters are \<^verbatim>\<open>uint8_t\<close> and stay below 7 and 5.
\<close>

function print_char_cols ::
  "config \<Rightarrow> (nat \<Rightarrow> u8) \<Rightarrow> nat \<Rightarrow> nat \<Rightarrow> nat \<Rightarrow> u16 \<Rightarrow> state \<Rightarrow> error + (u16 \<times> state)" where
  "print_char_cols cfg font start i j sz s =
     (if j < 5 then
        (if font (start + j) AND push_bit i 1 \<noteq> 0 then
           (case buffer_store cfg sz (hi_byte (color s)) s of
              Inl e \<Rightarrow> Inl e
            | Inr s1 \<Rightarrow>
                (case buffer_store cfg (sz + 1) (lo_byte (color s1)) s1 of
                   Inl e \<Rightarrow> Inl e
                 | Inr s2 \<Rightarrow> print_char_cols cfg font start i (j + 1) (sz + 2) s2))
         else
           (case buffer_store cfg sz (hi_byte (bg_color s)) s of
              Inl e \<Rightarrow> Inl e
            | Inr s1 \<Rightarrow>
                (case buffer_store cfg (sz + 1) (lo_byte (bg_color s1)) s1 of
                   Inl e \<Rightarrow> Inl e
                 | Inr s2 \<Rightarrow> print_char_cols cfg font start i (j + 1) (sz + 2) s2)))
      else Inr (sz, s))"
  by pat_completeness auto
termination
  by (relation "measure (\<lambda>(cfg, font, start, i, j, sz, s). 5 - j)") auto

declare print_char_cols.simps [simp del]

text \<open>The outer loop, over the bit rows \<open>i\<close>.\<close>

function print_char_rows ::
  "config \<Rightarrow> (nat \<Rightarrow> u8) \<Rightarrow> nat \<Rightarrow> nat \<Rightarrow> u16 \<Rightarrow> state \<Rightarrow> error + (u16 \<times> state)" where
  "print_char_rows cfg font start i sz s =
     (if i < 7 then
        (case print_char_cols cfg font start i 0 sz s of
           Inl e \<Rightarrow> Inl e
         | Inr (sz1, s1) \<Rightarrow> print_char_rows cfg font start (i + 1) sz1 s1)
      else Inr (sz, s))"
  by pat_completeness auto
termination
  by (relation "measure (\<lambda>(cfg, font, start, i, sz, s). 7 - i)") auto

declare print_char_rows.simps [simp del]

definition tft_print_char :: "config \<Rightarrow> (nat \<Rightarrow> u8) \<Rightarrow> u8 \<Rightarrow> state \<Rightarrow> error + state" where
  "tft_print_char cfg font c s =
     (let start = unat c + push_bit 2 (unat c)
      in case print_char_rows cfg font start 0 0 s of
           Inl e \<Rightarrow> Inl e
         | Inr (sz, s1) \<Rightarrow>
             (let s2 = BEGIN_WRITE s1;
                  s3 = tft_set_window (cursor_x s2) (cursor_y s2)
                         (cursor_x s2 + 4) (cursor_x s2 + 6) s2;
                  s4 = DATA_MODE s3;
                  s5 = SPI_send_DMA sz 1 s4
              in Inr (END_WRITE s5)))"

text \<open>
  \<^verbatim>\<open>tft_print(str)\<close>: the list holds the bytes at \<^verbatim>\<open>str\<close>; the loop stops at the
  first NUL, and the end of the list stands for the terminating NUL of a C string.
\<close>

fun tft_print :: "config \<Rightarrow> (nat \<Rightarrow> u8) \<Rightarrow> u8 list \<Rightarrow> state \<Rightarrow> error + state" where
  "tft_print cfg font [] s = Inr s"
| "tft_print cfg font (c # cs) s =
     (if c = 0 then Inr s
      else (case tft_print_char cfg font c s of
              Inl e \<Rightarrow> Inl e
            | Inr s1 \<Rightarrow> tft_print cfg font cs (s1\<lparr>cursor_x := cursor_x s1 + 6\<rparr>)))"

text \<open>\<^verbatim>\<open>str[--digits] = v\<close> into \<^verbatim>\<open>static char str[12]\<close>; \<open>i\<close> is the decremented index.\<close>

definition str_store :: "u8 \<Rightarrow> u8 \<Rightarrow> state \<Rightarrow> error + state" where
  "str_store i v s =
     (if unat i < 12 then Inr (s\<lparr>str := (str s)(unat i := v)\<rparr>) else Inl BufferOverflow)"

text \<open>
  \<^verbatim>\<open>while (num) { str[--digits] = num % 10 + '0'; num /= 10; }\<close>: \<open>num\<close> is the
  value of the \<^verbatim>\<open>int32_t\<close>; C division truncates, and the quotient of a value in
  range is in range.
\<close>

function number_loop :: "int \<Rightarrow> u8 \<Rightarrow> state \<Rightarrow> error + (u8 \<times> state)" where
  "number_loop num digits s =
     (if num \<noteq> 0 then
        (case str_store (digits - 1) (word_of_int (num smod 10 + 48)) s of
           Inl e \<Rightarrow> Inl e
         | Inr s1 \<Rightarrow> number_loop (num sdiv 10) (digits - 1) s1)
      else Inr (digits, s))"
  by pat_completeness auto
termination
proof (relation "measure (\<lambda>(num, digits, s). nat \<bar>num\<bar>)")
  show "wf (measure (\<lambda>(num, digits, s). nat \<bar>num\<bar>))"
    by simp
next
  fix num :: int and digits :: u8 and s s1 :: state
  assume "num \<noteq> 0"
  then have "\<bar>num sdiv 10\<bar> < \<bar>num\<bar>"
    by (simp add: signed_divide_int_def abs_mult abs_sgn_eq)
  then show "((num sdiv 10, digits - 1, s1), (num, digits, s))
             \<in> measure (\<lambda>(num, digits, s). nat \<bar>num\<bar>)"
    by simp
qed

declare number_loop.simps [simp del]

text \<open>\<^verbatim>\<open>while (digits) { str[--digits] = ' '; }\<close>\<close>

function space_loop :: "u8 \<Rightarrow> state \<Rightarrow> error + state" where
  "space_loop digits s =
     (if digits \<noteq> 0 then
        (case str_store (digits - 1) 0x20 s of
           Inl e \<Rightarrow> Inl e
         | Inr s1 \<Rightarrow> space_loop (digits - 1) s1)
      else Inr s)"
  by pat_completeness auto
termination
proof (relation "measure (\<lambda>(digits, s). unat digits)")
  show "wf (measure (\<lambda>(digits, s). unat digits))"
    by simp
next
  fix digits :: u8 and s s1 :: state
  assume "digits \<noteq> 0"
  then have "unat (digits - 1) < unat digits"
    by (simp add: unat_minus_one unat_gt_0 [symmetric])
  then show "((digits - 1, s1), (digits, s)) \<in> measure (\<lambda>(digits, s). unat digits)"
    by simp
qed

declare space_loop.simps [simp del]

text \<open>
  The conversion of \<^verbatim>\<open>tft_print_number\<close>, up to the call of \<^verbatim>\<open>tft_print\<close>.
  \<^verbatim>\<open>num = -num\<close> overflows at \<open>- 2 ^ 31\<close>.
\<close>

definition number_to_str :: "i32 \<Rightarrow> state \<Rightarrow> error + state" where
  "number_to_str num s =
     (if num <s 0 \<and> sint num = - (2 ^ 31) then Inl SignedOverflow
      else
        (let neg = (num <s 0);
             n = (if neg then - sint num else sint num)
         in case str_store 11 0 s of
              Inl e \<Rightarrow> Inl e
            | Inr s1 \<Rightarrow>
           (case number_loop n 11 s1 of
              Inl e \<Rightarrow> Inl e
            | Inr (digits, s2) \<Rightarrow>
           (case (if digits = 11
                  then (case str_store (digits - 1) 0x30 s2 of
                          Inl e \<Rightarrow> Inl e | Inr s3 \<Rightarrow> Inr (digits - 1, s3))
                  else Inr (digits, s2)) of
              Inl e \<Rightarrow> Inl e
            | Inr (digits, s3) \<Rightarrow>
           (case (if neg
                  then (case str_store (digits - 1) 0x2D s3 of
                          Inl e \<Rightarrow> Inl e | Inr s4 \<Rightarrow> Inr (digits - 1, s4))
                  else Inr (digits, s3)) of
              Inl e \<Rightarrow> Inl e
            | Inr (digits, s4) \<Rightarrow> space_loop digits s4)))))"

text \<open>The bytes of \<^verbatim>\<open>str[12]\<close>, which \<^verbatim>\<open>tft_print\<close> reads up to the first NUL.\<close>

definition str_bytes :: "state \<Rightarrow> u8 list" where
  "str_bytes s = map (str s) [0 ..< 12]"

definition tft_print_number :: "config \<Rightarrow> (nat \<Rightarrow> u8) \<Rightarrow> i32 \<Rightarrow> state \<Rightarrow> error + state" where
  "tft_print_number cfg font num s =
     (case number_to_str num s of
        Inl e \<Rightarrow> Inl e
      | Inr s1 \<Rightarrow> tft_print cfg font (str_bytes s1) s1)"

section \<open>Lines\<close>

text \<open>
  The macro \<^verbatim>\<open>_diff(a, b)\<close> on \<^verbatim>\<open>int16_t\<close> operands: the subtraction is done in
  \<^verbatim>\<open>int\<close> and cannot overflow.
\<close>

definition diff :: "i16 \<Rightarrow> i16 \<Rightarrow> int" where
  "diff a b = (if sint a > sint b then sint a - sint b else sint b - sint a)"

text \<open>
  The loop of \<^verbatim>\<open>_tft_draw_line\<close>, \<^verbatim>\<open>for (; x0 <= x1; x0++)\<close>. The counter is an
  \<^verbatim>\<open>int16_t\<close>: past 32767 it wraps to \<open>-32768\<close>, and the loop need not end.
\<close>

partial_function (option) line_loop ::
  "config \<Rightarrow> bool \<Rightarrow> i16 \<Rightarrow> i16 \<Rightarrow> i16 \<Rightarrow> i16 \<Rightarrow> u16 \<Rightarrow> i16 \<Rightarrow> i16 \<Rightarrow> i16 \<Rightarrow> state \<Rightarrow> state option"
  where
  "line_loop cfg steep x1 dx dy step c x0 y0 err s =
     (if x0 \<le>s x1 then
        (if err - dy <s 0
         then line_loop cfg steep x1 dx dy step c (x0 + 1) (y0 + step) (err - dy + dx)
                (if steep then tft_draw_pixel cfg y0 x0 c s else tft_draw_pixel cfg x0 y0 c s)
         else line_loop cfg steep x1 dx dy step c (x0 + 1) y0 (err - dy)
                (if steep then tft_draw_pixel cfg y0 x0 c s else tft_draw_pixel cfg x0 y0 c s))
      else Some s)"

definition static_tft_draw_line ::
  "config \<Rightarrow> i16 \<Rightarrow> i16 \<Rightarrow> i16 \<Rightarrow> i16 \<Rightarrow> u16 \<Rightarrow> state \<Rightarrow> state option" where
  "static_tft_draw_line cfg x0 y0 x1 y1 c s =
     (let steep = (diff y1 y0 > diff x1 x0);
          (x0, y0) = (if steep then (y0, x0) else (x0, y0));
          (x1, y1) = (if steep then (y1, x1) else (x1, y1));
          swap = (x1 <s x0);
          (x0, x1) = (if swap then (x1, x0) else (x0, x1));
          (y0, y1) = (if swap then (y1, y0) else (y0, y1));
          dx = x1 - x0;
          dy = word_of_int (diff y1 y0);
          err = signed_drop_bit 1 dx;
          step = (if y0 <s y1 then 1 else - 1)
      in line_loop cfg steep x1 dx dy step c x0 y0 err s)"

text \<open>
  \<^verbatim>\<open>tft_draw_line\<close>: \<open>None\<close> when the general path does not return; the fast
  helpers can fail on the scratch buffer.
\<close>

definition tft_draw_line ::
  "config \<Rightarrow> i16 \<Rightarrow> i16 \<Rightarrow> i16 \<Rightarrow> i16 \<Rightarrow> u16 \<Rightarrow> state \<Rightarrow> (error + state) option" where
  "tft_draw_line cfg x0 y0 x1 y1 c s =
     (if x0 = x1 then
        (let (y0, y1) = (if y1 <s y0 then (y1, y0) else (y0, y1))
         in Some (static_tft_draw_fast_v_line cfg x0 y0 (y1 - y0 + 1) c s))
      else if y0 = y1 then
        (let (x0, x1) = (if x1 <s x0 then (x1, x0) else (x0, x1))
         in Some (static_tft_draw_fast_h_line cfg x0 y0 (x1 - x0 + 1) c s))
      else map_option Inr (static_tft_draw_line cfg x0 y0 x1 y1 c s))"

section \<open>Closed forms used to state the results\<close>

text \<open>The events of one \<^verbatim>\<open>tft_set_window\<close> call.\<close>

definition window_events :: "u16 \<Rightarrow> u16 \<Rightarrow> u16 \<Rightarrow> u16 \<Rightarrow> event list" where
  "window_events x0 y0 x1 y1 =
     [DC_Low, SPI_Byte 0x2A,
      DC_High, SPI_Byte (hi_byte x0), SPI_Byte (lo_byte x0),
      DC_High, SPI_Byte (hi_byte x1), SPI_Byte (lo_byte x1),
      DC_Low, SPI_Byte 0x2B,
      DC_High, SPI_Byte (hi_byte y0), SPI_Byte (lo_byte y0),
      DC_High, SPI_Byte (hi_byte y1), SPI_Byte (lo_byte y1),
      DC_Low, SPI_Byte 0x2C]"

text \<open>The bytes a trace puts on the bus through the SPI data register, in order.\<close>

fun spi_bytes :: "event list \<Rightarrow> u8 list" where
  "spi_bytes [] = []"
| "spi_bytes (SPI_Byte b # es) = b # spi_bytes es"
| "spi_bytes (e # es) = spi_bytes es"

text \<open>How many DMA transfers and how many scratch-buffer stores a trace holds.\<close>

fun dma_count :: "event list \<Rightarrow> nat" where
  "dma_count [] = 0"
| "dma_count (DMA_Block bs n r # es) = Suc (dma_count es)"
| "dma_count (e # es) = dma_count es"

fun store_count :: "event list \<Rightarrow> nat" where
  "store_count [] = 0"
| "store_count (Buf_Store i b # es) = Suc (store_count es)"
| "store_count (e # es) = store_count es"

text \<open>Consecutive stores of the bytes \<open>bs\<close> from index \<open>i\<close>, with the bounds check.\<close>

fun buffer_store_list :: "config \<Rightarrow> u16 \<Rightarrow> u8 list \<Rightarrow> state \<Rightarrow> error + (u16 \<times> state)" where
  "buffer_store_list cfg sz [] s = Inr (sz, s)"
| "buffer_store_list cfg sz (b # bs) s =
     (case buffer_store cfg sz b s of
        Inl e \<Rightarrow> Inl e
      | Inr s1 \<Rightarrow> buffer_store_list cfg (sz + 1) bs s1)"

text \<open>Their events and their effect on the buffer.\<close>

definition store_events :: "nat \<Rightarrow> u8 list \<Rightarrow> event list" where
  "store_events i bs = map (\<lambda>k. Buf_Store (i + k) (bs ! k)) [0 ..< length bs]"

definition write_at :: "nat \<Rightarrow> u8 list \<Rightarrow> (nat \<Rightarrow> u8) \<Rightarrow> (nat \<Rightarrow> u8)" where
  "write_at i bs buf = (\<lambda>k. if i \<le> k \<and> k < i + length bs then bs ! (k - i) else buf k)"

definition stored :: "nat \<Rightarrow> u8 list \<Rightarrow> state \<Rightarrow> state" where
  "stored i bs s =
     s\<lparr>buffer := write_at i bs (buffer s), trace := trace s @ store_events i bs\<rparr>"

text \<open>\<open>n\<close> pixels of one colour, two bytes each, high byte first.\<close>

definition color_bytes :: "nat \<Rightarrow> u16 \<Rightarrow> u8 list" where
  "color_bytes n c = concat (replicate n [hi_byte c, lo_byte c])"

text \<open>
  The pixels of a glyph: bit \<open>i\<close> of column byte \<open>j\<close> selects foreground or
  background; a row is the five columns of one bit, the glyph its seven rows.
\<close>

definition glyph_pixel :: "(nat \<Rightarrow> u8) \<Rightarrow> nat \<Rightarrow> u16 \<Rightarrow> u16 \<Rightarrow> nat \<Rightarrow> nat \<Rightarrow> u16" where
  "glyph_pixel font start fg bg i j =
     (if font (start + j) AND push_bit i 1 \<noteq> 0 then fg else bg)"

definition glyph_cols :: "(nat \<Rightarrow> u8) \<Rightarrow> nat \<Rightarrow> u16 \<Rightarrow> u16 \<Rightarrow> nat \<Rightarrow> nat list \<Rightarrow> u8 list" where
  "glyph_cols font start fg bg i js =
     concat (map (\<lambda>j. [hi_byte (glyph_pixel font start fg bg i j),
                        lo_byte (glyph_pixel font start fg bg i j)]) js)"

definition glyph_rows :: "(nat \<Rightarrow> u8) \<Rightarrow> nat \<Rightarrow> u16 \<Rightarrow> u16 \<Rightarrow> nat list \<Rightarrow> u8 list" where
  "glyph_rows font start fg bg is =
     concat (map (\<lambda>i. glyph_cols font start fg bg i [0 ..< 5]) is)"

definition glyph_bytes :: "(nat \<Rightarrow> u8) \<Rightarrow> u8 \<Rightarrow> u16 \<Rightarrow> u16 \<Rightarrow> u8 list" where
  "glyph_bytes font c fg bg = glyph_rows font (5 * unat c) fg bg [0 ..< 7]"

text \<open>Signed minimum and maximum of two \<^verbatim>\<open>int16_t\<close> values.\<close>

definition smin :: "i16 \<Rightarrow> i16 \<Rightarrow> i16" where
  "smin a b = (if a \<le>s b then a else b)"

definition smax :: "i16 \<Rightarrow> i16 \<Rightarrow> i16" where
  "smax a b = (if a \<le>s b then b else a)"

text \<open>Pixels plotted one after the other with \<^verbatim>\<open>tft_draw_pixel\<close>.\<close>

definition draw_pixels :: "config \<Rightarrow> u16 \<Rightarrow> (u16 \<times> u16) list \<Rightarrow> state \<Rightarrow> state" where
  "draw_pixels cfg c pts s = foldl (\<lambda>s (x, y). tft_draw_pixel cfg x y c s) s pts"

text \<open>
  The points of the general line after \<open>n\<close> further rounds of its loop: the loop
  body with a round counter in place of the comparison with \<open>x1\<close>.
\<close>

fun line_points ::
  "bool \<Rightarrow> i16 \<Rightarrow> i16 \<Rightarrow> i16 \<Rightarrow> nat \<Rightarrow> i16 \<Rightarrow> i16 \<Rightarrow> i16 \<Rightarrow> (u16 \<times> u16) list" where
  "line_points steep dx dy step 0 x0 y0 err = []"
| "line_points steep dx dy step (Suc n) x0 y0 err =
     (if steep then (y0, x0) else (x0, y0)) #
     (if err - dy <s 0
      then line_points steep dx dy step n (x0 + 1) (y0 + step) (err - dy + dx)
      else line_points steep dx dy step n (x0 + 1) y0 (err - dy))"

text \<open>
  Sample panels for concrete runs: a 160 x 80 panel in landscape and the same panel in
  portrait, with mounting offsets; and the state at start-up, \<^verbatim>\<open>BLACK\<close> and
  \<^verbatim>\<open>WHITE\<close> of \<^verbatim>\<open>st7735.h\<close> being parameters.
\<close>

definition panel_160x80 :: config where
  "panel_160x80 =
     \<lparr>ST7735_WIDTH = 160, ST7735_HEIGHT = 80, ST7735_X_OFFSET = 1, ST7735_Y_OFFSET = 26\<rparr>"

definition panel_80x160 :: config where
  "panel_80x160 =
     \<lparr>ST7735_WIDTH = 80, ST7735_HEIGHT = 160, ST7735_X_OFFSET = 26, ST7735_Y_OFFSET = 1\<rparr>"

definition init_state :: "u16 \<Rightarrow> u16 \<Rightarrow> state" where
  "init_state black white =
     \<lparr>cursor_x = 0, cursor_y = 0, color = black, bg_color = white,
      buffer = (\<lambda>i. 0), str = (\<lambda>i. 0), trace = []\<rparr>"

text \<open>
  The decimal digits of a natural number as ASCII bytes, most significant first, and
  the text of a signed 32-bit number: a minus sign if it is negative, then the digits
  of its absolute value.
\<close>

fun decimal :: "nat \<Rightarrow> u8 list" where
  "decimal n = (if n < 10 then [of_nat n + 48] else decimal (n div 10) @ [of_nat (n mod 10) + 48])"

declare decimal.simps [simp del]

definition number_text :: "i32 \<Rightarrow> u8 list" where
  "number_text num = (if num <s 0 then [0x2D] else []) @ decimal (nat \<bar>sint num\<bar>)"

section \<open>Basic facts\<close>

lemma emit_simps:
  "trace (emit e s) = trace s @ [e]"
  "buffer (emit e s) = buffer s"
  "str (emit e s) = str s"
  "cursor_x (emit e s) = cursor_x s"
  "cursor_y (emit e s) = cursor_y s"
  "color (emit e s) = color s"
  "bg_color (emit e s) = bg_color s"
  by (simp_all add: emit_def)

lemma spi_bytes_append: "spi_bytes (xs @ ys) = spi_bytes xs @ spi_bytes ys"
  by (induction xs rule: spi_bytes.induct) simp_all

lemma dma_count_append: "dma_count (xs @ ys) = dma_count xs + dma_count ys"
  by (induction xs rule: dma_count.induct) simp_all

lemma store_count_append: "store_count (xs @ ys) = store_count xs + store_count ys"
  by (induction xs rule: store_count.induct) simp_all

lemma dma_count_window [simp]: "dma_count (window_events x0 y0 x1 y1) = 0"
  by (simp add: window_events_def)

lemma store_count_window [simp]: "store_count (window_events x0 y0 x1 y1) = 0"
  by (simp add: window_events_def)

lemma dma_count_store_events [simp]: "dma_count (store_events i bs) = 0"
proof -
  have "dma_count (map (\<lambda>k. Buf_Store (i + k) (bs ! k)) ks) = 0" for ks
    by (induction ks) simp_all
  then show ?thesis by (simp add: store_events_def)
qed

lemma store_count_store_events [simp]: "store_count (store_events i bs) = length bs"
proof -
  have "store_count (map (\<lambda>k. Buf_Store (i + k) (bs ! k)) ks) = length ks" for ks
    by (induction ks) simp_all
  then show ?thesis by (simp add: store_events_def)
qed

lemma tft_set_window_eq:
  "tft_set_window x0 y0 x1 y1 s = s\<lparr>trace := trace s @ window_events x0 y0 x1 y1\<rparr>"
  by (simp add: tft_set_window_def window_events_def write_command_8_def write_data_16_def
      SPI_send_def COMMAND_MODE_def DATA_MODE_def emit_def
      ST7735_CASET_def ST7735_RASET_def ST7735_RAMWR_def)

lemma tft_draw_pixel_eq:
  "tft_draw_pixel cfg x y c s =
     s\<lparr>trace := trace s @ CS_Low #
        window_events (x + ST7735_X_OFFSET cfg) (y + ST7735_Y_OFFSET cfg)
                      (x + ST7735_X_OFFSET cfg) (y + ST7735_Y_OFFSET cfg) @
        [DC_High, SPI_Byte (hi_byte c), SPI_Byte (lo_byte c), CS_High]\<rparr>"
  by (simp add: tft_draw_pixel_def tft_set_window_eq write_data_16_def SPI_send_def
      DATA_MODE_def BEGIN_WRITE_def END_WRITE_def emit_def Let_def)

subsection \<open>Stores into the scratch buffer\<close>

lemma store_events_Nil [simp]: "store_events i [] = []"
  by (simp add: store_events_def)

lemma store_events_Cons: "store_events i (b # bs) = Buf_Store i b # store_events (Suc i) bs"
proof -
  have "[0 ..< length (b # bs)] = 0 # map Suc [0 ..< length bs]"
    by (simp add: upt_conv_Cons map_Suc_upt del: upt_Suc)
  then show ?thesis
    by (simp add: store_events_def comp_def del: upt_Suc)
qed

lemma write_at_Nil [simp]: "write_at i [] buf = buf"
  by (auto simp: write_at_def fun_eq_iff)

lemma write_at_Cons: "write_at i (b # bs) buf = write_at (Suc i) bs (buf(i := b))"
  by (auto simp: write_at_def fun_eq_iff nth_Cons')

lemma stored_Nil [simp]: "stored i [] s = s"
  by (simp add: stored_def)

lemma stored_Cons:
  "stored i (b # bs) s =
     stored (Suc i) bs (emit (Buf_Store i b) (s\<lparr>buffer := (buffer s)(i := b)\<rparr>))"
  by (simp add: stored_def write_at_Cons store_events_Cons emit_def)

lemma stored_fields [simp]:
  "cursor_x (stored i bs s) = cursor_x s"
  "cursor_y (stored i bs s) = cursor_y s"
  "color (stored i bs s) = color s"
  "bg_color (stored i bs s) = bg_color s"
  "str (stored i bs s) = str s"
  "trace (stored i bs s) = trace s @ store_events i bs"
  "buffer (stored i bs s) = write_at i bs (buffer s)"
  by (simp_all add: stored_def)

lemma map_write_at_0: "map (write_at 0 bs buf) [0 ..< length bs] = bs"
  by (rule nth_equalityI) (simp_all add: write_at_def)

lemma unat_u16_Suc: "unat (sz :: u16) < 65535 \<Longrightarrow> unat (sz + 1) = Suc (unat sz)"
  by (simp add: unat_word_ariths)

lemma buffer_store_list_ok:
  "unat sz + length bs \<le> 2 * ST7735_WIDTH cfg \<Longrightarrow> unat sz + length bs < 65536 \<Longrightarrow>
   buffer_store_list cfg sz bs s = Inr (sz + of_nat (length bs), stored (unat sz) bs s)"
proof (induction bs arbitrary: sz s)
  case Nil
  then show ?case by simp
next
  case (Cons b bs)
  from Cons.prems have one: "unat (sz + 1) = Suc (unat sz)"
    by (simp add: unat_u16_Suc)
  from Cons.prems have now: "unat sz < 2 * ST7735_WIDTH cfg"
    by simp
  have "buffer_store_list cfg (sz + 1) bs
          (emit (Buf_Store (unat sz) b) (s\<lparr>buffer := (buffer s)(unat sz := b)\<rparr>)) =
        Inr (sz + 1 + of_nat (length bs),
             stored (unat (sz + 1)) bs
               (emit (Buf_Store (unat sz) b) (s\<lparr>buffer := (buffer s)(unat sz := b)\<rparr>)))"
    using Cons.prems one by (intro Cons.IH) simp_all
  with now one show ?case
    by (simp add: buffer_store_def stored_Cons add.assoc)
qed

lemma buffer_store_list_overflow:
  "unat sz \<le> 2 * ST7735_WIDTH cfg \<Longrightarrow> 2 * ST7735_WIDTH cfg < unat sz + length bs \<Longrightarrow>
   2 * ST7735_WIDTH cfg < 65535 \<Longrightarrow>
   buffer_store_list cfg sz bs s = Inl BufferOverflow"
proof (induction bs arbitrary: sz s)
  case Nil
  then show ?case by simp
next
  case (Cons b bs)
  show ?case
  proof (cases "unat sz < 2 * ST7735_WIDTH cfg")
    case False
    then show ?thesis by (simp add: buffer_store_def)
  next
    case True
    with Cons.prems have one: "unat (sz + 1) = Suc (unat sz)"
      by (simp add: unat_u16_Suc)
    have "buffer_store_list cfg (sz + 1) bs
            (emit (Buf_Store (unat sz) b) (s\<lparr>buffer := (buffer s)(unat sz := b)\<rparr>)) =
          Inl BufferOverflow"
      using Cons.prems one True by (intro Cons.IH) simp_all
    with True show ?thesis
      by (simp add: buffer_store_def)
  qed
qed

lemma buffer_store_list_append:
  "buffer_store_list cfg sz (xs @ ys) s =
     (case buffer_store_list cfg sz xs s of
        Inl e \<Rightarrow> Inl e
      | Inr (sz1, s1) \<Rightarrow> buffer_store_list cfg sz1 ys s1)"
  by (induction xs arbitrary: sz s) (simp_all split: sum.splits)

lemma buffer_store_fields:
  "buffer_store cfg sz v s = Inr s1 \<Longrightarrow> color s1 = color s \<and> bg_color s1 = bg_color s"
  by (auto simp: buffer_store_def emit_def split: if_splits)

lemma buffer_store_list_fields:
  "buffer_store_list cfg sz bs s = Inr (sz1, s1) \<Longrightarrow>
   color s1 = color s \<and> bg_color s1 = bg_color s"
proof (induction bs arbitrary: sz s)
  case Nil
  then show ?case by simp
next
  case (Cons b bs)
  then show ?case
    by (fastforce split: sum.splits dest: buffer_store_fields)
qed

lemma color_bytes_Suc: "color_bytes (Suc n) c = hi_byte c # lo_byte c # color_bytes n c"
  by (simp add: color_bytes_def)

lemma length_color_bytes [simp]: "length (color_bytes n c) = 2 * n"
  by (induction n) (simp_all add: color_bytes_def)

lemma fill_rect_loop_eq:
  "fill_rect_loop cfg width c x sz s =
     buffer_store_list cfg sz (color_bytes (unat width - unat x) c) s"
proof (induction cfg width c x sz s rule: fill_rect_loop.induct)
  case (1 cfg width c x sz s)
  show ?case
  proof (cases "x < width")
    case False
    then have "unat width - unat x = 0"
      by (simp add: word_less_nat_alt)
    with False show ?thesis
      by (simp add: color_bytes_def fill_rect_loop.simps)
  next
    case True
    then have lt: "unat x < unat width"
      by (simp add: word_less_nat_alt)
    have "unat width < 65536"
      using unsigned_less [of width, where 'a = nat] by simp
    with lt have "unat (x + 1) = Suc (unat x)"
      by (simp add: unat_word_ariths)
    with lt have n: "unat width - unat x = Suc (unat width - unat (x + 1))"
      by simp
    have two: "sz + 1 + 1 = sz + 2"
      by simp
    show ?thesis
      using True "1.IH"
      by (subst fill_rect_loop.simps) (simp add: n color_bytes_Suc two split: sum.splits)
  qed
qed

lemma fast_line_loop_eq:
  "fast_line_loop cfg n c j sz s =
     buffer_store_list cfg sz (color_bytes (nat (sint n - sint j)) c) s"
proof (induction cfg n c j sz s rule: fast_line_loop.induct)
  case (1 cfg n c j sz s)
  show ?case
  proof (cases "j <s n")
    case False
    then have "nat (sint n - sint j) = 0"
      by (simp add: word_sless_alt)
    with False show ?thesis
      by (simp add: color_bytes_def fast_line_loop.simps)
  next
    case True
    then have lt: "sint j < sint n"
      by (simp add: word_sless_alt)
    have "sint n \<le> 32767"
      using sint_lt [of n] by simp
    with lt have "sint (j + 1) = sint j + 1"
      using sint_ge [of j] by (simp add: sint_word_ariths signed_take_bit_int_eq_self)
    with lt have n: "nat (sint n - sint j) = Suc (nat (sint n - sint (j + 1)))"
      by simp
    have two: "sz + 1 + 1 = sz + 2"
      by simp
    show ?thesis
      using True "1.IH"
      by (subst fast_line_loop.simps) (simp add: n color_bytes_Suc two split: sum.splits)
  qed
qed

subsection \<open>Fill, window, transfer\<close>

lemma send_tail:
  "length bs = unat sz \<Longrightarrow>
   END_WRITE (SPI_send_DMA sz r (DATA_MODE (tft_set_window a b c d (BEGIN_WRITE (stored 0 bs s))))) =
     s\<lparr>buffer := write_at 0 bs (buffer s),
       trace := trace s @ store_events 0 bs @ CS_Low # window_events a b c d @
                [DC_High, DMA_Block bs sz r, CS_High]\<rparr>"
  using map_write_at_0 [of bs "buffer s"]
  by (simp add: END_WRITE_def SPI_send_DMA_def DATA_MODE_def BEGIN_WRITE_def tft_set_window_eq
      emit_def stored_def)

lemma unat_twice: "n < 32768 \<Longrightarrow> unat (2 * of_nat n :: u16) = 2 * n"
  by (simp add: unat_word_ariths unat_of_nat)

lemma tft_fill_rect_ok:
  assumes "unat width \<le> ST7735_WIDTH cfg" and "unat width < 32768"
  shows "tft_fill_rect cfg x y width height c s =
     Inr (s\<lparr>buffer := write_at 0 (color_bytes (unat width) c) (buffer s),
            trace := trace s @ store_events 0 (color_bytes (unat width) c) @
              CS_Low # window_events (x + ST7735_X_OFFSET cfg) (y + ST7735_Y_OFFSET cfg)
                (x + ST7735_X_OFFSET cfg + width - 1) (y + ST7735_Y_OFFSET cfg + height - 1) @
              [DC_High, DMA_Block (color_bytes (unat width) c) (2 * width) height, CS_High]\<rparr>)"
proof -
  have len: "length (color_bytes (unat width) c) = unat (2 * width)"
    using assms(2) unat_twice [of "unat width"] by simp
  have loop: "fill_rect_loop cfg width c 0 0 s =
      Inr (2 * width, stored 0 (color_bytes (unat width) c) s)"
    using assms by (simp add: fill_rect_loop_eq buffer_store_list_ok)
  show ?thesis
    by (simp add: tft_fill_rect_def loop Let_def send_tail [OF len])
qed

lemma fast_line_fill_ok:
  assumes "sint n \<le> int (ST7735_WIDTH cfg)"
  shows "fast_line_loop cfg n c 0 0 s =
      Inr (2 * of_nat (nat (sint n)), stored 0 (color_bytes (nat (sint n)) c) s)"
proof -
  have "sint n \<le> 32767"
    using sint_lt [of n] by simp
  then show ?thesis
    using assms by (simp add: fast_line_loop_eq buffer_store_list_ok)
qed

lemma fast_line_len:
  "length (color_bytes (nat (sint (n :: i16))) c) = unat (2 * of_nat (nat (sint n)) :: u16)"
proof -
  have "sint n \<le> 32767"
    using sint_lt [of n] by simp
  then have "nat (sint n) < 32768"
    by simp
  then show ?thesis
    using unat_twice [of "nat (sint n)"] by simp
qed

lemma fast_v_line_ok:
  assumes "sint h \<le> int (ST7735_WIDTH cfg)"
  shows "static_tft_draw_fast_v_line cfg x y h c s =
     Inr (s\<lparr>buffer := write_at 0 (color_bytes (nat (sint h)) c) (buffer s),
            trace := trace s @ store_events 0 (color_bytes (nat (sint h)) c) @
              CS_Low # window_events (x + ST7735_X_OFFSET cfg) (y + ST7735_Y_OFFSET cfg)
                (x + ST7735_X_OFFSET cfg) (y + ST7735_Y_OFFSET cfg + h - 1) @
              [DC_High, DMA_Block (color_bytes (nat (sint h)) c) (2 * of_nat (nat (sint h))) 1,
               CS_High]\<rparr>)"
  by (simp add: static_tft_draw_fast_v_line_def fast_line_fill_ok [OF assms] Let_def
      send_tail [OF fast_line_len])

lemma fast_h_line_ok:
  assumes "sint w \<le> int (ST7735_WIDTH cfg)"
  shows "static_tft_draw_fast_h_line cfg x y w c s =
     Inr (s\<lparr>buffer := write_at 0 (color_bytes (nat (sint w)) c) (buffer s),
            trace := trace s @ store_events 0 (color_bytes (nat (sint w)) c) @
              CS_Low # window_events (x + ST7735_X_OFFSET cfg) (y + ST7735_Y_OFFSET cfg)
                (x + ST7735_X_OFFSET cfg + w - 1) (y + ST7735_Y_OFFSET cfg) @
              [DC_High, DMA_Block (color_bytes (nat (sint w)) c) (2 * of_nat (nat (sint w))) 1,
               CS_High]\<rparr>)"
  by (simp add: static_tft_draw_fast_h_line_def fast_line_fill_ok [OF assms] Let_def
      send_tail [OF fast_line_len])

subsection \<open>Glyphs\<close>

lemma glyph_cols_Nil [simp]: "glyph_cols font start fg bg i [] = []"
  by (simp add: glyph_cols_def)

lemma glyph_cols_Cons:
  "glyph_cols font start fg bg i (j # js) =
     hi_byte (glyph_pixel font start fg bg i j) # lo_byte (glyph_pixel font start fg bg i j) #
     glyph_cols font start fg bg i js"
  by (simp add: glyph_cols_def)

lemma length_glyph_cols [simp]: "length (glyph_cols font start fg bg i js) = 2 * length js"
  by (induction js) (simp_all add: glyph_cols_Cons)

lemma glyph_rows_Nil [simp]: "glyph_rows font start fg bg [] = []"
  by (simp add: glyph_rows_def)

lemma glyph_rows_Cons:
  "glyph_rows font start fg bg (i # is) =
     glyph_cols font start fg bg i [0 ..< 5] @ glyph_rows font start fg bg is"
  by (simp add: glyph_rows_def)

lemma length_glyph_rows [simp]: "length (glyph_rows font start fg bg is) = 10 * length is"
  by (induction "is") (simp_all add: glyph_rows_Cons)

lemma length_glyph_bytes [simp]: "length (glyph_bytes font c fg bg) = 70"
  by (simp add: glyph_bytes_def)

lemma print_char_cols_eq:
  "print_char_cols cfg font start i j sz s =
     buffer_store_list cfg sz (glyph_cols font start (color s) (bg_color s) i [j ..< 5]) s"
proof (induction cfg font start i j sz s rule: print_char_cols.induct)
  case (1 cfg font start i j sz s)
  show ?case
  proof (cases "j < 5")
    case False
    then show ?thesis
      by (simp add: print_char_cols.simps)
  next
    case True
    then have upt: "[j ..< 5] = j # [j + 1 ..< 5]"
      by (simp add: upt_conv_Cons)
    have two: "sz + 1 + 1 = sz + 2"
      by simp
    show ?thesis
    proof (cases "font (start + j) AND push_bit i 1 \<noteq> 0")
      case fg: True
      show ?thesis
        using True fg "1.IH"(1)
        by (subst print_char_cols.simps)
          (simp add: upt glyph_cols_Cons glyph_pixel_def two buffer_store_def emit_def)
    next
      case bg: False
      show ?thesis
        using True bg "1.IH"(2)
        by (subst print_char_cols.simps)
          (simp add: upt glyph_cols_Cons glyph_pixel_def two buffer_store_def emit_def)
    qed
  qed
qed

lemma print_char_rows_eq:
  "print_char_rows cfg font start i sz s =
     buffer_store_list cfg sz (glyph_rows font start (color s) (bg_color s) [i ..< 7]) s"
proof (induction cfg font start i sz s rule: print_char_rows.induct)
  case (1 cfg font start i sz s)
  show ?case
  proof (cases "i < 7")
    case False
    then show ?thesis
      by (simp add: print_char_rows.simps)
  next
    case True
    then have upt: "[i ..< 7] = i # [i + 1 ..< 7]"
      by (simp add: upt_conv_Cons)
    show ?thesis
    proof (cases "buffer_store_list cfg sz
                    (glyph_cols font start (color s) (bg_color s) i [0 ..< 5]) s")
      case (Inl e)
      with True show ?thesis
        by (subst print_char_rows.simps)
          (simp add: upt glyph_rows_Cons buffer_store_list_append print_char_cols_eq)
    next
      case (Inr p)
      obtain sz1 s1 where p: "p = (sz1, s1)"
        by (cases p)
      have "color s1 = color s \<and> bg_color s1 = bg_color s"
        using buffer_store_list_fields Inr p by blast
      with True Inr p "1.IH" show ?thesis
        by (subst print_char_rows.simps)
          (simp add: upt glyph_rows_Cons buffer_store_list_append print_char_cols_eq)
    qed
  qed
qed

lemma tft_print_char_ok:
  assumes "35 \<le> ST7735_WIDTH cfg"
  shows "tft_print_char cfg font c s =
     Inr (s\<lparr>buffer := write_at 0 (glyph_bytes font c (color s) (bg_color s)) (buffer s),
            trace := trace s @
              store_events 0 (glyph_bytes font c (color s) (bg_color s)) @
              CS_Low # window_events (cursor_x s) (cursor_y s) (cursor_x s + 4) (cursor_x s + 6) @
              [DC_High, DMA_Block (glyph_bytes font c (color s) (bg_color s)) 70 1, CS_High]\<rparr>)"
proof -
  have start: "unat c + push_bit 2 (unat c) = 5 * unat c"
    by (simp add: push_bit_eq_mult)
  have len: "length (glyph_bytes font c (color s) (bg_color s)) = unat (70 :: u16)"
    by simp
  have loop: "print_char_rows cfg font (5 * unat c) 0 0 s =
      Inr (70, stored 0 (glyph_bytes font c (color s) (bg_color s)) s)"
    using assms by (simp add: print_char_rows_eq buffer_store_list_ok glyph_bytes_def)
  show ?thesis
    using send_tail [OF len, of 1 "cursor_x s" "cursor_y s" "cursor_x s + 4" "cursor_x s + 6" s]
    by (simp add: tft_print_char_def start loop Let_def BEGIN_WRITE_def emit_def stored_def)
qed

lemma tft_print_ok:
  assumes "35 \<le> ST7735_WIDTH cfg"
  shows "0 \<notin> set cs \<Longrightarrow>
    \<exists>s'. tft_print cfg font cs s = Inr s' \<and>
         cursor_x s' = cursor_x s + 6 * of_nat (length cs) \<and> cursor_y s' = cursor_y s \<and>
         color s' = color s \<and> bg_color s' = bg_color s \<and> str s' = str s"
proof (induction cs arbitrary: s)
  case Nil
  then show ?case by simp
next
  case (Cons a cs)
  define s1 where "s1 =
    s\<lparr>buffer := write_at 0 (glyph_bytes font a (color s) (bg_color s)) (buffer s),
      trace := trace s @
        store_events 0 (glyph_bytes font a (color s) (bg_color s)) @
        CS_Low # window_events (cursor_x s) (cursor_y s) (cursor_x s + 4) (cursor_x s + 6) @
        [DC_High, DMA_Block (glyph_bytes font a (color s) (bg_color s)) 70 1, CS_High],
      cursor_x := cursor_x s + 6\<rparr>"
  from Cons.prems have "0 \<notin> set cs" and a: "a \<noteq> 0"
    by auto
  from Cons.IH [OF this(1), of s1] obtain s' where
    s': "tft_print cfg font cs s1 = Inr s'"
      "cursor_x s' = cursor_x s1 + 6 * of_nat (length cs)" "cursor_y s' = cursor_y s1"
      "color s' = color s1" "bg_color s' = bg_color s1" "str s' = str s1"
    by blast
  have "tft_print cfg font (a # cs) s = Inr s'"
    using a s'(1) by (simp add: tft_print_char_ok [OF assms] s1_def)
  moreover have "cursor_x s' = cursor_x s + 6 * of_nat (length (a # cs))"
    using s'(2) by (simp add: s1_def algebra_simps)
  ultimately show ?case
    using s'(3-6) by (simp add: s1_def)
qed

subsection \<open>The general line\<close>

lemma sint_i16_Suc: "sint (x :: i16) < 32767 \<Longrightarrow> sint (x + 1) = sint x + 1"
  using sint_ge [of x] by (simp add: sint_word_ariths signed_take_bit_int_eq_self)

lemma draw_pixels_Nil [simp]: "draw_pixels cfg c [] s = s"
  by (simp add: draw_pixels_def)

lemma draw_pixels_Cons:
  "draw_pixels cfg c (p # ps) s = draw_pixels cfg c ps (tft_draw_pixel cfg (fst p) (snd p) c s)"
  by (simp add: draw_pixels_def split_beta)

lemma line_loop_points:
  assumes "sint x1 < 32767"
  shows "sint x0 \<le> sint x1 + 1 \<Longrightarrow> n = nat (sint x1 + 1 - sint x0) \<Longrightarrow>
    line_loop cfg steep x1 dx dy step c x0 y0 err s =
      Some (draw_pixels cfg c (line_points steep dx dy step n x0 y0 err) s)"
proof (induction n arbitrary: x0 y0 err s)
  case 0
  then have "\<not> x0 \<le>s x1"
    by (simp add: word_sle_eq)
  then show ?case
    by (subst line_loop.simps) simp
next
  case (Suc n)
  then have le: "sint x0 \<le> sint x1"
    by simp
  with assms have nxt: "sint (x0 + 1) = sint x0 + 1"
    by (simp add: sint_i16_Suc)
  have IH: "line_loop cfg steep x1 dx dy step c (x0 + 1) y err' s' =
      Some (draw_pixels cfg c (line_points steep dx dy step n (x0 + 1) y err') s')"
    for y err' s'
    using Suc.prems le nxt by (intro Suc.IH) simp_all
  from le have "x0 \<le>s x1"
    by (simp add: word_sle_eq)
  then show ?case
    by (subst line_loop.simps) (simp add: IH draw_pixels_Cons)
qed

lemma length_line_points [simp]: "length (line_points steep dx dy step n x0 y0 err) = n"
  by (induction n arbitrary: x0 y0 err) simp_all

lemma line_points_major:
  "map (if steep then snd else fst) (line_points steep dx dy step n x0 y0 err) =
     map (\<lambda>k. x0 + of_nat k) [0 ..< n]"
proof (induction n arbitrary: x0 y0 err)
  case 0
  then show ?case by simp
next
  case (Suc n)
  have "[0 ..< Suc n] = 0 # map Suc [0 ..< n]"
    by (simp add: upt_conv_Cons map_Suc_upt del: upt_Suc)
  moreover have "map (if steep then snd else fst) (line_points steep dx dy step n (x0 + 1) y e) =
      map (\<lambda>k. x0 + (1 + of_nat k)) [0 ..< n]" for y e
    using Suc.IH [of "x0 + 1" y e] by (simp add: add.assoc)
  ultimately show ?case
    by (cases steep) (simp_all add: comp_def del: upt_Suc)
qed

lemma diff_abs: "diff a b = \<bar>sint a - sint b\<bar>"
  by (simp add: diff_def)

lemma trace_draw_pixels:
  "length (trace (draw_pixels cfg c pts s)) = length (trace s) + 23 * length pts"
  by (induction pts arbitrary: s)
    (simp_all add: draw_pixels_Cons tft_draw_pixel_eq window_events_def)

lemma static_line_run:
  assumes "sint a \<le> sint b" and "sint b < 32767"
  shows "\<exists>pts. line_loop cfg st b dx dy step c a ya err s = Some (draw_pixels cfg c pts s) \<and>
     int (length pts) = sint b - sint a + 1 \<and>
     map (if st then snd else fst) pts = map (\<lambda>k. a + of_nat k) [0 ..< length pts] \<and>
     length (trace (draw_pixels cfg c pts s)) = length (trace s) + 23 * length pts"
proof -
  let ?pts = "line_points st dx dy step (nat (sint b + 1 - sint a)) a ya err"
  have "line_loop cfg st b dx dy step c a ya err s = Some (draw_pixels cfg c ?pts s)"
    using assms by (intro line_loop_points) simp_all
  moreover have "int (length ?pts) = sint b - sint a + 1"
    using assms by simp
  moreover have "map (if st then snd else fst) ?pts = map (\<lambda>k. a + of_nat k) [0 ..< length ?pts]"
    by (simp add: line_points_major)
  ultimately show ?thesis
    using trace_draw_pixels by blast
qed

lemma dma_count_draw_pixel [simp]:
  "dma_count (trace (tft_draw_pixel cfg x y c s)) = dma_count (trace s)"
  by (simp add: tft_draw_pixel_eq dma_count_append)

lemma store_count_draw_pixel [simp]:
  "store_count (trace (tft_draw_pixel cfg x y c s)) = store_count (trace s)"
  by (simp add: tft_draw_pixel_eq store_count_append)

lemma line_loop_frame:
  assumes "line_loop cfg steep x1 dx dy step c x0 y0 err s = Some s'"
  shows "dma_count (trace s') = dma_count (trace s) \<and>
         store_count (trace s') = store_count (trace s)"
proof (rule line_loop.raw_induct
    [where P = "\<lambda>cfg steep x1 dx dy step c x0 y0 err s s'.
       dma_count (trace s') = dma_count (trace s) \<and>
       store_count (trace s') = store_count (trace s)", OF _ assms])
  fix f :: "config \<Rightarrow> bool \<Rightarrow> i16 \<Rightarrow> i16 \<Rightarrow> i16 \<Rightarrow> i16 \<Rightarrow> u16 \<Rightarrow> i16 \<Rightarrow> i16 \<Rightarrow> i16 \<Rightarrow> state
      \<Rightarrow> state option"
    and cfg steep x1 dx dy step c x0 y0 err s s'
  assume IH: "\<And>cfg steep x1 dx dy step c x0 y0 err s s'.
      f cfg steep x1 dx dy step c x0 y0 err s = Some s' \<Longrightarrow>
      dma_count (trace s') = dma_count (trace s) \<and>
      store_count (trace s') = store_count (trace s)"
    and body: "(if x0 \<le>s x1 then
        (if err - dy <s 0
         then f cfg steep x1 dx dy step c (x0 + 1) (y0 + step) (err - dy + dx)
                (if steep then tft_draw_pixel cfg y0 x0 c s else tft_draw_pixel cfg x0 y0 c s)
         else f cfg steep x1 dx dy step c (x0 + 1) y0 (err - dy)
                (if steep then tft_draw_pixel cfg y0 x0 c s else tft_draw_pixel cfg x0 y0 c s))
      else Some s) = Some s'"
  show "dma_count (trace s') = dma_count (trace s) \<and>
        store_count (trace s') = store_count (trace s)"
  proof (cases "x0 \<le>s x1")
    case False
    with body show ?thesis by simp
  next
    case True
    show ?thesis
    proof (cases "err - dy <s 0")
      case neg: True
      with True body IH [of cfg steep x1 dx dy step c "x0 + 1" "y0 + step" "err - dy + dx"
          "if steep then tft_draw_pixel cfg y0 x0 c s else tft_draw_pixel cfg x0 y0 c s" s']
      show ?thesis by (simp split: if_splits)
    next
      case pos: False
      with True body IH [of cfg steep x1 dx dy step c "x0 + 1" y0 "err - dy"
          "if steep then tft_draw_pixel cfg y0 x0 c s else tft_draw_pixel cfg x0 y0 c s" s']
      show ?thesis by (simp split: if_splits)
    qed
  qed
qed

lemma static_line_frame:
  "static_tft_draw_line cfg x0 y0 x1 y1 c s = Some s' \<Longrightarrow>
   dma_count (trace s') = dma_count (trace s) \<and> store_count (trace s') = store_count (trace s)"
  by (auto simp: static_tft_draw_line_def Let_def split: if_splits dest: line_loop_frame)

lemma static_line_dma:
  "static_tft_draw_line cfg x0 y0 x1 y1 c s = Some s' \<Longrightarrow>
   dma_count (trace s') = dma_count (trace s)"
  by (simp add: static_line_frame)

lemma buffer_store_list_dma:
  "buffer_store_list cfg sz bs s = Inr (sz1, s1) \<Longrightarrow> dma_count (trace s1) = dma_count (trace s)"
proof (induction bs arbitrary: sz s)
  case Nil
  then show ?case by simp
next
  case (Cons b bs)
  then show ?case
    by (auto simp: buffer_store_def emit_def dma_count_append split: sum.splits if_splits)
qed

lemma fast_v_line_dma:
  "static_tft_draw_fast_v_line cfg x y h c s = Inr s' \<Longrightarrow>
   dma_count (trace s') = Suc (dma_count (trace s))"
  by (auto simp: static_tft_draw_fast_v_line_def fast_line_loop_eq Let_def END_WRITE_def
      SPI_send_DMA_def DATA_MODE_def BEGIN_WRITE_def tft_set_window_eq emit_def dma_count_append
      split: sum.splits dest: buffer_store_list_dma)

lemma fast_h_line_dma:
  "static_tft_draw_fast_h_line cfg x y w c s = Inr s' \<Longrightarrow>
   dma_count (trace s') = Suc (dma_count (trace s))"
  by (auto simp: static_tft_draw_fast_h_line_def fast_line_loop_eq Let_def END_WRITE_def
      SPI_send_DMA_def DATA_MODE_def BEGIN_WRITE_def tft_set_window_eq emit_def dma_count_append
      split: sum.splits dest: buffer_store_list_dma)

lemma fast_v_line_not_general:
  "Some (static_tft_draw_fast_v_line cfg x y h c s) \<noteq>
   map_option Inr (static_tft_draw_line cfg a b a' b' c' s)"
proof
  assume eq: "Some (static_tft_draw_fast_v_line cfg x y h c s) =
    map_option Inr (static_tft_draw_line cfg a b a' b' c' s)"
  then obtain s' where "static_tft_draw_line cfg a b a' b' c' s = Some s'"
    and "static_tft_draw_fast_v_line cfg x y h c s = Inr s'"
    by (cases "static_tft_draw_line cfg a b a' b' c' s") auto
  then show False
    using static_line_dma fast_v_line_dma by fastforce
qed

lemma fast_h_line_not_general:
  "Some (static_tft_draw_fast_h_line cfg x y h c s) \<noteq>
   map_option Inr (static_tft_draw_line cfg a b a' b' c' s)"
proof
  assume eq: "Some (static_tft_draw_fast_h_line cfg x y h c s) =
    map_option Inr (static_tft_draw_line cfg a b a' b' c' s)"
  then obtain s' where "static_tft_draw_line cfg a b a' b' c' s = Some s'"
    and "static_tft_draw_fast_h_line cfg x y h c s = Inr s'"
    by (cases "static_tft_draw_line cfg a b a' b' c' s") auto
  then show False
    using static_line_dma fast_h_line_dma by fastforce
qed

subsection \<open>Numbers\<close>

lemma write_at_snoc: "write_at i (bs @ [b]) buf = write_at i bs (buf(i + length bs := b))"
  by (auto simp: write_at_def fun_eq_iff nth_append)

lemma decimal_nonempty: "decimal n \<noteq> []"
  by (subst decimal.simps) simp

lemma length_decimal_le: "0 < k \<Longrightarrow> n < 10 ^ k \<Longrightarrow> length (decimal n) \<le> k"
proof (induction k arbitrary: n)
  case 0
  then show ?case by simp
next
  case (Suc k)
  show ?case
  proof (cases "n < 10")
    case True
    then show ?thesis by (subst decimal.simps) simp
  next
    case False
    with Suc.prems have "0 < k"
      by (cases k) simp_all
    moreover from Suc.prems have "n div 10 < 10 ^ k"
      by (simp add: less_mult_imp_div_less mult.commute)
    ultimately have "length (decimal (n div 10)) \<le> k"
      by (rule Suc.IH)
    with False show ?thesis by (subst decimal.simps) simp
  qed
qed

lemma digit_byte: "d < 10 \<Longrightarrow> unat (of_nat d + 48 :: u8) = d + 48"
  by (simp add: unat_word_ariths unat_of_nat)

lemma decimal_bytes: "b \<in> set (decimal n) \<Longrightarrow> 48 \<le> unat b \<and> unat b \<le> 57"
proof (induction n arbitrary: b rule: decimal.induct)
  case (1 n)
  show ?case
  proof (cases "n < 10")
    case True
    with "1.prems" have "b = of_nat n + 48"
      by (subst (asm) decimal.simps) simp
    with True show ?thesis
      by (simp add: digit_byte)
  next
    case False
    with "1.prems" have "b \<in> set (decimal (n div 10)) \<or> b = of_nat (n mod 10) + 48"
      by (subst (asm) decimal.simps) auto
    then show ?thesis
    proof
      assume "b \<in> set (decimal (n div 10))"
      with False show ?thesis by (intro "1.IH") simp_all
    next
      assume "b = of_nat (n mod 10) + 48"
      then show ?thesis by (simp add: digit_byte)
    qed
  qed
qed

lemma unat_u8_pred: "d \<noteq> 0 \<Longrightarrow> unat (d - 1 :: u8) = unat d - 1"
  by (simp add: unat_minus_one)

lemma number_loop_pos:
  "0 < n \<Longrightarrow> length (decimal (nat n)) \<le> unat d \<Longrightarrow> unat d \<le> 12 \<Longrightarrow>
   number_loop n d s =
     Inr (d - of_nat (length (decimal (nat n))),
          s\<lparr>str := write_at (unat d - length (decimal (nat n))) (decimal (nat n)) (str s)\<rparr>)"
proof (induction n d s rule: number_loop.induct)
  case (1 num digits s)
  from "1.prems" have d0: "digits \<noteq> 0"
    using decimal_nonempty [of "nat num"] by (cases "decimal (nat num)") auto
  then have pred: "unat (digits - 1) = unat digits - 1" and dpos: "0 < unat digits"
    by (simp_all add: unat_u8_pred unat_gt_0)
  from "1.prems" have sm: "num smod 10 = num mod 10" and sd: "num sdiv 10 = num div 10"
    by (simp_all add: signed_modulo_int_def signed_divide_int_def)
  have "num mod 10 = int (nat num mod 10)"
    using "1.prems"(1) by (simp add: zmod_int)
  then have "(word_of_int (num mod 10) :: u8) = word_of_int (int (nat num mod 10))"
    by simp
  then have dig: "(word_of_int (num mod 10) :: u8) = of_nat (nat num mod 10)"
    by (simp only: of_int_of_nat_eq)
  have store: "str_store (digits - 1) (word_of_int (num smod 10 + 48)) s =
      Inr (s\<lparr>str := (str s)(unat digits - 1 := of_nat (nat num mod 10) + 48)\<rparr>)"
    using "1.prems" dpos by (simp add: str_store_def pred sm dig)
  show ?case
  proof (cases "num < 10")
    case True
    then have "num div 10 = 0"
      using "1.prems"(1) by simp
    moreover from True "1.prems"(1) have small: "nat num < 10"
      by linarith
    then have "decimal (nat num) = [of_nat (nat num) + 48]"
      by (subst decimal.simps) simp
    moreover from True "1.prems"(1) have "nat num mod 10 = nat num"
      by simp
    ultimately show ?thesis
      using "1.prems"(1) store
      by (subst number_loop.simps)
        (simp add: sd number_loop.simps [of 0] write_at_Cons)
  next
    case False
    then have "\<not> nat num < 10"
      by linarith
    then have dec: "decimal (nat num) =
        decimal (nat (num div 10)) @ [of_nat (nat num mod 10) + 48]"
      using "1.prems"(1) by (subst decimal.simps) (simp add: nat_div_distrib)
    from False have pos: "0 < num div 10"
      by simp
    have len: "length (decimal (nat num)) = Suc (length (decimal (nat (num div 10))))"
      by (simp add: dec)
    have "number_loop (num sdiv 10) (digits - 1)
            (s\<lparr>str := (str s)(unat digits - 1 := of_nat (nat num mod 10) + 48)\<rparr>) =
          Inr (digits - 1 - of_nat (length (decimal (nat (num sdiv 10)))),
            (s\<lparr>str := (str s)(unat digits - 1 := of_nat (nat num mod 10) + 48)\<rparr>)
            \<lparr>str := write_at (unat (digits - 1) - length (decimal (nat (num sdiv 10))))
               (decimal (nat (num sdiv 10)))
               (str (s\<lparr>str := (str s)(unat digits - 1 := of_nat (nat num mod 10) + 48)\<rparr>))\<rparr>)"
      using "1.prems" pos len store
      by (intro "1.IH") (simp_all add: sd pred)
    moreover have "unat digits - 1 - length (decimal (nat (num div 10))) +
        length (decimal (nat (num div 10))) = unat digits - 1"
      using "1.prems"(2) len by simp
    ultimately show ?thesis
      using "1.prems"(1) store
      by (subst number_loop.simps)
        (simp add: sd pred dec write_at_snoc diff_diff_eq)
  qed
qed

lemma space_loop_eq:
  "unat d \<le> 12 \<Longrightarrow>
   space_loop d s = Inr (s\<lparr>str := write_at 0 (replicate (unat d) 0x20) (str s)\<rparr>)"
proof (induction d s rule: space_loop.induct)
  case (1 digits s)
  show ?case
  proof (cases "digits = 0")
    case True
    then show ?thesis
      by (subst space_loop.simps) simp
  next
    case False
    then have pred: "unat (digits - 1) = unat digits - 1" and dpos: "0 < unat digits"
      by (simp_all add: unat_u8_pred unat_gt_0)
    then have rep: "replicate (unat digits) (0x20 :: u8) = replicate (unat digits - 1) 0x20 @ [0x20]"
      by (cases "unat digits") (simp_all add: replicate_append_same)
    have store: "str_store (digits - 1) 0x20 s = Inr (s\<lparr>str := (str s)(unat digits - 1 := 0x20)\<rparr>)"
      using "1.prems" dpos by (simp add: str_store_def pred)
    have "space_loop (digits - 1) (s\<lparr>str := (str s)(unat digits - 1 := 0x20)\<rparr>) =
        Inr ((s\<lparr>str := (str s)(unat digits - 1 := 0x20)\<rparr>)
          \<lparr>str := write_at 0 (replicate (unat (digits - 1)) 0x20)
                    (str (s\<lparr>str := (str s)(unat digits - 1 := 0x20)\<rparr>))\<rparr>)"
      using False store "1.prems" by (intro "1.IH") (simp_all add: pred)
    then show ?thesis
      using False store
      by (subst space_loop.simps) (simp add: pred write_at_snoc rep del: replicate.simps)
  qed
qed

lemma field_bytes:
  assumes "p + length body = 11"
  shows "map (write_at 0 (replicate p v) (write_at p body (f(11 := 0)))) [0 ..< 12] =
     replicate p v @ body @ [0 :: u8]"
proof (rule nth_equalityI)
  show "length (map (write_at 0 (replicate p v) (write_at p body (f(11 := 0)))) [0 ..< 12]) =
      length (replicate p v @ body @ [0 :: u8])"
    using assms by simp
next
  fix i
  assume "i < length (map (write_at 0 (replicate p v) (write_at p body (f(11 := 0)))) [0 ..< 12])"
  then have i: "i < 12"
    by simp
  then have nth: "[0 ..< 12] ! i = i"
    by (metis add_0 nth_upt)
  show "map (write_at 0 (replicate p v) (write_at p body (f(11 := 0)))) [0 ..< 12] ! i =
      (replicate p v @ body @ [0 :: u8]) ! i"
    using assms i by (auto simp: nth write_at_def nth_append simp del: upt_Suc)
qed

lemma write_at_Cons_outer: "(write_at (Suc i) bs buf)(i := b) = write_at i (b # bs) buf"
  by (auto simp: write_at_def fun_eq_iff nth_Cons')

lemma tft_print_NUL:
  "0 \<notin> set xs \<Longrightarrow> tft_print cfg font (xs @ 0 # ys) s = tft_print cfg font xs s"
  by (induction xs arbitrary: s) (auto split: sum.splits)

lemma decimal_no_NUL: "0 \<notin> set (decimal n)"
  using decimal_bytes [of 0 n] by auto

lemma decimal_int32: "n \<le> 2 ^ 31 \<Longrightarrow> length (decimal n) \<le> 10"
  by (rule length_decimal_le) simp_all

lemma number_to_str_ok:
  assumes "sint num \<noteq> - (2 ^ 31)"
  shows "\<exists>s1. number_to_str num s = Inr s1 \<and> s1 = s\<lparr>str := str s1\<rparr> \<and>
      str_bytes s1 =
        replicate (11 - length (number_text num)) 0x20 @ number_text num @ [0] \<and>
      length (number_text num) \<le> 11"
proof -
  define n where "n = nat \<bar>sint num\<bar>"
  define k where "k = length (decimal n)"
  have "\<bar>sint num\<bar> \<le> 2 ^ 31"
    using sint_ge [of num] sint_lt [of num] by simp
  then have "n \<le> 2 ^ 31"
    by (simp add: n_def nat_le_iff)
  then have k10: "k \<le> 10" and k1: "1 \<le> k"
    using decimal_int32 [of n] decimal_nonempty [of n]
    by (simp_all add: k_def Suc_le_eq)
  have u: "unat (11 :: u8) = 11" "unat (10 :: u8) = 10"
    by simp_all
  have st11: "str_store 11 0 s = Inr (s\<lparr>str := (str s)(11 := 0)\<rparr>)"
    by (simp add: str_store_def)
  define s1 where "s1 = s\<lparr>str := (str s)(11 := 0)\<rparr>"
  show ?thesis
  proof (cases "num = 0")
    case z: True
    have d0: "decimal 0 = [0x30]"
      by (subst decimal.simps) simp
    have sp: "space_loop 10 (s1\<lparr>str := (str s1)(10 := 0x30)\<rparr>) =
        Inr ((s1\<lparr>str := (str s1)(10 := 0x30)\<rparr>)
          \<lparr>str := write_at 0 (replicate (unat (10 :: u8)) 0x20)
                    (str (s1\<lparr>str := (str s1)(10 := 0x30)\<rparr>))\<rparr>)"
      by (rule space_loop_eq) simp
    have fb: "map (write_at 0 (replicate 10 0x20) (write_at 10 [0x30] ((str s)(11 := 0))))
        [0 ..< 12] = replicate 10 0x20 @ [0x30] @ [0 :: u8]"
      by (rule field_bytes) simp
    show ?thesis
      using sp fb
      by (simp add: z number_to_str_def st11 s1_def [symmetric] number_loop.simps [of 0]
          str_store_def number_text_def d0 str_bytes_def write_at_Cons
          del: upt_Suc replicate.simps)
        (simp add: s1_def del: upt_Suc replicate.simps)
  next
    case False
    then have nz: "sint num \<noteq> 0"
      by (simp add: signed_eq_0_iff)
    then have npos: "0 < int n" and absn: "\<bar>sint num\<bar> = int n"
      by (simp_all add: n_def)
    have ku: "unat (of_nat k :: u8) = k"
      using k10 by (simp add: unat_of_nat)
    then have kle: "(of_nat k :: u8) \<le> 11"
      using k10 by (simp add: word_le_nat_alt)
    have du: "unat (11 - of_nat k :: u8) = 11 - k"
      using unat_sub [OF kle] ku by simp
    have dne: "(11 - of_nat k :: u8) \<noteq> 11"
    proof
      assume "(11 - of_nat k :: u8) = 11"
      then have "unat (11 - of_nat k :: u8) = unat (11 :: u8)"
        by (rule arg_cong)
      with du k1 k10 show False
        by simp
    qed
    have dnz: "(11 - of_nat k :: u8) \<noteq> 0"
    proof
      assume "(11 - of_nat k :: u8) = 0"
      then have "unat (11 - of_nat k :: u8) = unat (0 :: u8)"
        by (rule arg_cong)
      with du k1 k10 show False
        by simp
    qed
    have kle': "(of_nat k :: u8) \<le> 10"
      using k10 ku by (simp add: word_le_nat_alt)
    have du1: "unat (10 - of_nat k :: u8) = 10 - k"
      using unat_sub [OF kle'] ku by simp
    have loop: "number_loop (int n) 11 s1 =
        Inr (11 - of_nat k, s1\<lparr>str := write_at (11 - k) (decimal n) (str s1)\<rparr>)"
      using number_loop_pos [OF npos, of 11 s1] k10 by (simp add: k_def)
    show ?thesis
    proof (cases "num <s 0")
      case neg: True
      then have arg: "- sint num = int n"
        using absn by (simp add: word_sless_alt)
      have body: "number_text num = 0x2D # decimal n"
        using neg by (simp add: number_text_def n_def)
      have sp: "space_loop (10 - of_nat k)
          (s1\<lparr>str := write_at (10 - k) (0x2D # decimal n) (str s1)\<rparr>) =
        Inr ((s1\<lparr>str := write_at (10 - k) (0x2D # decimal n) (str s1)\<rparr>)
          \<lparr>str := write_at 0 (replicate (unat (10 - of_nat k :: u8)) 0x20)
             (str (s1\<lparr>str := write_at (10 - k) (0x2D # decimal n) (str s1)\<rparr>))\<rparr>)"
        by (rule space_loop_eq) (simp add: du1)
      have "11 - k = Suc (10 - k)"
        using k10 by simp
      then have outer: "(write_at (11 - k) (decimal n) (str s1))(10 - k := 0x2D) =
          write_at (10 - k) (0x2D # decimal n) (str s1)"
        by (simp only: write_at_Cons_outer)
      have fb: "map (write_at 0 (replicate (10 - k) 0x20)
            (write_at (10 - k) (0x2D # decimal n) ((str s)(11 := 0)))) [0 ..< 12] =
          replicate (10 - k) 0x20 @ (0x2D # decimal n) @ [0 :: u8]"
        using k10 by (intro field_bytes) (simp add: k_def)
      show ?thesis
        using neg assms sp fb k10
        by (simp add: number_to_str_def st11 s1_def [symmetric] arg loop dne str_store_def
            du1 outer body str_bytes_def k_def [symmetric] del: upt_Suc replicate.simps)
          (simp add: s1_def del: upt_Suc replicate.simps)
    next
      case pos: False
      then have arg: "sint num = int n"
        using absn by (simp add: word_sless_alt)
      have body: "number_text num = decimal n"
        using pos by (simp add: number_text_def n_def)
      have sp: "space_loop (11 - of_nat k)
          (s1\<lparr>str := write_at (11 - k) (decimal n) (str s1)\<rparr>) =
        Inr ((s1\<lparr>str := write_at (11 - k) (decimal n) (str s1)\<rparr>)
          \<lparr>str := write_at 0 (replicate (unat (11 - of_nat k :: u8)) 0x20)
             (str (s1\<lparr>str := write_at (11 - k) (decimal n) (str s1)\<rparr>))\<rparr>)"
        by (rule space_loop_eq) (simp add: du)
      have fb: "map (write_at 0 (replicate (11 - k) 0x20)
            (write_at (11 - k) (decimal n) ((str s)(11 := 0)))) [0 ..< 12] =
          replicate (11 - k) 0x20 @ decimal n @ [0 :: u8]"
        using k10 by (intro field_bytes) (simp add: k_def)
      show ?thesis
        using pos sp fb k10
        by (simp add: number_to_str_def st11 s1_def [symmetric] arg loop dne
            du body str_bytes_def k_def [symmetric] del: upt_Suc replicate.simps)
          (simp add: s1_def del: upt_Suc replicate.simps)
    qed
  qed
qed

lemma number_text_no_NUL: "0 \<notin> set (number_text num)"
  using decimal_no_NUL by (simp add: number_text_def)

lemma tft_print_number_field:
  assumes "sint num \<noteq> - (2 ^ 31)"
  shows "\<exists>s1. number_to_str num s = Inr s1 \<and> s1 = s\<lparr>str := str s1\<rparr> \<and>
      str_bytes s1 =
        replicate (11 - length (number_text num)) 0x20 @ number_text num @ [0] \<and>
      length (replicate (11 - length (number_text num)) 0x20 @ number_text num) = 11 \<and>
      tft_print_number cfg font num s =
        tft_print cfg font (replicate (11 - length (number_text num)) 0x20 @ number_text num) s1"
proof -
  from number_to_str_ok [OF assms, of s] obtain s1 where
    run: "number_to_str num s = Inr s1" and frame: "s1 = s\<lparr>str := str s1\<rparr>"
    and bytes: "str_bytes s1 =
        replicate (11 - length (number_text num)) 0x20 @ number_text num @ [0]"
    and len: "length (number_text num) \<le> 11"
    by blast
  have "0 \<notin> set (replicate (11 - length (number_text num)) (0x20 :: u8) @ number_text num)"
    using number_text_no_NUL [of num] by auto
  then have "tft_print cfg font
      ((replicate (11 - length (number_text num)) 0x20 @ number_text num) @ 0 # []) s1 =
    tft_print cfg font (replicate (11 - length (number_text num)) 0x20 @ number_text num) s1"
    by (rule tft_print_NUL)
  then have "tft_print_number cfg font num s =
      tft_print cfg font (replicate (11 - length (number_text num)) 0x20 @ number_text num) s1"
    by (simp add: tft_print_number_def run bytes)
  with run frame bytes len show ?thesis
    by (intro exI [of _ s1]) simp
qed

lemma t7: "number_text (- 7) = [0x2D, 0x37]"
  by (simp add: number_text_def decimal.simps word_sless_alt)
lemma t0: "number_text 0 = [0x30]"
  by (simp add: number_text_def decimal.simps word_sless_alt)
lemma s7: "(map of_char ''         -7'' :: u8 list) = replicate (11 - length [0x2D, 0x37 :: u8]) 0x20 @ [0x2D, 0x37]"
  by (simp add: eval_nat_numeral)
lemma s0: "(map of_char ''          0'' :: u8 list) = replicate (11 - length [0x30 :: u8]) 0x20 @ [0x30]"
  by (simp add: eval_nat_numeral)

lemma number_to_str_min: "number_to_str (- 2147483648) s = Inl SignedOverflow"
  by (simp add: number_to_str_def word_sless_alt)

subsection \<open>Capacity of the scratch buffer\<close>

lemma fast_line_overflow:
  assumes "int (ST7735_WIDTH cfg) < sint n" and "ST7735_WIDTH cfg < 32768"
  shows "fast_line_loop cfg n c 0 0 s = Inl BufferOverflow"
  unfolding fast_line_loop_eq
  using assms by (intro buffer_store_list_overflow) simp_all

lemma fast_v_line_overflow:
  assumes "int (ST7735_WIDTH cfg) < sint h" and "ST7735_WIDTH cfg < 32768"
  shows "static_tft_draw_fast_v_line cfg x y h c s = Inl BufferOverflow"
  by (simp add: static_tft_draw_fast_v_line_def fast_line_overflow [OF assms])

lemma tft_draw_bitmap_eq:
  "2 * (unat width * unat height) < 2 ^ 31 \<Longrightarrow>
   tft_draw_bitmap cfg x y width height bitmap s =
     Inr (s\<lparr>trace := trace s @ CS_Low #
        window_events (x + ST7735_X_OFFSET cfg) (y + ST7735_Y_OFFSET cfg)
          (x + ST7735_X_OFFSET cfg + width - 1) (y + ST7735_Y_OFFSET cfg + height - 1) @
        [DC_High,
         DMA_Block (map bitmap [0 ..< unat (of_nat (2 * (unat width * unat height)) :: u16)])
           (of_nat (2 * (unat width * unat height))) 1,
         CS_High]\<rparr>)"
  by (simp add: tft_draw_bitmap_def Let_def END_WRITE_def SPI_send_DMA_from_def DATA_MODE_def
      BEGIN_WRITE_def tft_set_window_eq emit_def)

lemma sint_of_small:
  assumes "unat (w :: u16) < 32768"
  shows "sint w = int (unat w)"
proof -
  have u: "uint w = int (unat w)"
    by (rule uint_nat)
  with assms have lt: "uint w < 32768"
    by linarith
  have ge: "- 32768 \<le> uint w"
    using u by linarith
  have "sint w = signed_take_bit 15 (uint w)"
    by (simp add: sint_uint)
  also have "\<dots> = uint w"
    using ge lt by (intro signed_take_bit_int_eq_self) simp_all
  also have "\<dots> = int (unat w)"
    by (rule u)
  finally show ?thesis .
qed

lemma fast_h_line_count:
  assumes "sint w \<le> int (ST7735_WIDTH cfg)"
  shows "\<exists>s'. static_tft_draw_fast_h_line cfg x y w c s = Inr s' \<and>
     store_count (trace s') = store_count (trace s) + 2 * nat (sint w)"
  by (simp add: fast_h_line_ok [OF assms] store_count_append)

lemma fast_v_line_count:
  assumes "sint h \<le> int (ST7735_WIDTH cfg)"
  shows "\<exists>s'. static_tft_draw_fast_v_line cfg x y h c s = Inr s' \<and>
     store_count (trace s') = store_count (trace s) + 2 * nat (sint h)"
  by (simp add: fast_v_line_ok [OF assms] store_count_append)

lemma tft_draw_rect_count:
  assumes "unat width \<le> ST7735_WIDTH cfg" and "unat height \<le> ST7735_WIDTH cfg"
    and "ST7735_WIDTH cfg < 32768"
  shows "\<exists>s'. tft_draw_rect cfg x y width height c s = Inr s' \<and>
     store_count (trace s') = store_count (trace s) + 4 * unat width + 4 * unat height"
proof -
  have w: "sint width = int (unat width)" and h: "sint height = int (unat height)"
    using assms by (simp_all add: sint_of_small)
  have wle: "sint width \<le> int (ST7735_WIDTH cfg)"
    using assms(1) w by linarith
  have hle: "sint height \<le> int (ST7735_WIDTH cfg)"
    using assms(2) h by linarith
  obtain s1 where s1: "static_tft_draw_fast_h_line cfg x y width c s = Inr s1"
    "store_count (trace s1) = store_count (trace s) + 2 * nat (sint width)"
    using fast_h_line_count [OF wle] by blast
  obtain s2 where s2: "static_tft_draw_fast_h_line cfg x (y + height - 1) width c s1 = Inr s2"
    "store_count (trace s2) = store_count (trace s1) + 2 * nat (sint width)"
    using fast_h_line_count [OF wle] by blast
  obtain s3 where s3: "static_tft_draw_fast_v_line cfg x y height c s2 = Inr s3"
    "store_count (trace s3) = store_count (trace s2) + 2 * nat (sint height)"
    using fast_v_line_count [OF hle] by blast
  obtain s4 where s4: "static_tft_draw_fast_v_line cfg (x + width - 1) y height c s3 = Inr s4"
    "store_count (trace s4) = store_count (trace s3) + 2 * nat (sint height)"
    using fast_v_line_count [OF hle] by blast
  have "tft_draw_rect cfg x y width height c s = Inr s4"
    by (simp add: tft_draw_rect_def s1 s2 s3 s4)
  moreover have "store_count (trace s4) =
      store_count (trace s) + 4 * unat width + 4 * unat height"
    using s1(2) s2(2) s3(2) s4(2) by (simp add: w h)
  ultimately show ?thesis
    by blast
qed

text \<open>
  The stores of one call where the fill stays within the width of the panel: twice the
  width for \<^verbatim>\<open>tft_fill_rect\<close> and the fast horizontal line, whatever the height;
  twice the height for the fast vertical line, which overruns the buffer as soon as the
  height exceeds the width; 70 for a character; none for a pixel, a bitmap and the
  general line.
\<close>

lemma scratch_buffer_stores_per_call:
  assumes "ST7735_WIDTH cfg < 32768"
  shows
   "(unat width \<le> ST7735_WIDTH cfg \<longrightarrow>
       (\<exists>s'. tft_fill_rect cfg x y width height c s = Inr s' \<and>
          store_count (trace s') = store_count (trace s) + 2 * unat width \<and>
          2 * unat width \<le> 2 * ST7735_WIDTH cfg))
    \<and> (sint w \<le> int (ST7735_WIDTH cfg) \<longrightarrow>
       (\<exists>s'. static_tft_draw_fast_h_line cfg lx ly w c s = Inr s' \<and>
          store_count (trace s') = store_count (trace s) + 2 * nat (sint w) \<and>
          2 * nat (sint w) \<le> 2 * ST7735_WIDTH cfg))
    \<and> (sint h \<le> int (ST7735_WIDTH cfg) \<longrightarrow>
       (\<exists>s'. static_tft_draw_fast_v_line cfg lx ly h c s = Inr s' \<and>
          store_count (trace s') = store_count (trace s) + 2 * nat (sint h) \<and>
          2 * nat (sint h) \<le> 2 * ST7735_WIDTH cfg))
    \<and> (int (ST7735_WIDTH cfg) < sint h' \<longrightarrow>
       static_tft_draw_fast_v_line cfg lx ly h' c s = Inl BufferOverflow)
    \<and> (ST7735_HEIGHT cfg \<le> ST7735_WIDTH cfg \<and> sint h \<le> int (ST7735_HEIGHT cfg) \<longrightarrow>
       (\<exists>s'. static_tft_draw_fast_v_line cfg lx ly h c s = Inr s'))
    \<and> (unat width \<le> ST7735_WIDTH cfg \<and> unat height \<le> ST7735_WIDTH cfg \<longrightarrow>
       (\<exists>s'. tft_draw_rect cfg x y width height c s = Inr s' \<and>
          store_count (trace s') = store_count (trace s) + 4 * unat width + 4 * unat height))
    \<and> (35 \<le> ST7735_WIDTH cfg \<longrightarrow>
       (\<exists>s'. tft_print_char cfg font ch s = Inr s' \<and>
          store_count (trace s') = store_count (trace s) + 70))
    \<and> store_count (trace (tft_draw_pixel cfg x y c s)) = store_count (trace s)
    \<and> (2 * (unat width * unat height) < 2 ^ 31 \<longrightarrow>
       (\<exists>s'. tft_draw_bitmap cfg x y width height bitmap s = Inr s' \<and>
          store_count (trace s') = store_count (trace s)))
    \<and> (static_tft_draw_line cfg lx ly lx1 ly1 c s = None \<or>
       (\<exists>s'. static_tft_draw_line cfg lx ly lx1 ly1 c s = Some s' \<and>
          store_count (trace s') = store_count (trace s)))"
proof (intro conjI impI)
  show "\<exists>s'. tft_fill_rect cfg x y width height c s = Inr s' \<and>
          store_count (trace s') = store_count (trace s) + 2 * unat width \<and>
          2 * unat width \<le> 2 * ST7735_WIDTH cfg"
    if "unat width \<le> ST7735_WIDTH cfg"
  proof -
    from that assms have "unat width < 32768"
      by simp
    with that show ?thesis
      by (simp add: tft_fill_rect_ok store_count_append)
  qed
  show "\<exists>s'. static_tft_draw_fast_h_line cfg lx ly w c s = Inr s' \<and>
          store_count (trace s') = store_count (trace s) + 2 * nat (sint w) \<and>
          2 * nat (sint w) \<le> 2 * ST7735_WIDTH cfg"
    if "sint w \<le> int (ST7735_WIDTH cfg)"
  proof -
    from that have "2 * nat (sint w) \<le> 2 * ST7735_WIDTH cfg"
      by linarith
    with fast_h_line_count [OF that, of lx ly c s] show ?thesis
      by blast
  qed
  show "\<exists>s'. static_tft_draw_fast_v_line cfg lx ly h c s = Inr s' \<and>
          store_count (trace s') = store_count (trace s) + 2 * nat (sint h) \<and>
          2 * nat (sint h) \<le> 2 * ST7735_WIDTH cfg"
    if "sint h \<le> int (ST7735_WIDTH cfg)"
  proof -
    from that have "2 * nat (sint h) \<le> 2 * ST7735_WIDTH cfg"
      by linarith
    with fast_v_line_count [OF that, of lx ly c s] show ?thesis
      by blast
  qed
  show "static_tft_draw_fast_v_line cfg lx ly h' c s = Inl BufferOverflow"
    if "int (ST7735_WIDTH cfg) < sint h'"
    using that assms by (rule fast_v_line_overflow)
  show "\<exists>s'. static_tft_draw_fast_v_line cfg lx ly h c s = Inr s'"
    if "ST7735_HEIGHT cfg \<le> ST7735_WIDTH cfg \<and> sint h \<le> int (ST7735_HEIGHT cfg)"
  proof -
    from that have "sint h \<le> int (ST7735_WIDTH cfg)"
      by linarith
    from fast_v_line_count [OF this, of lx ly c s] show ?thesis
      by blast
  qed
  show "\<exists>s'. tft_draw_rect cfg x y width height c s = Inr s' \<and>
          store_count (trace s') = store_count (trace s) + 4 * unat width + 4 * unat height"
    if "unat width \<le> ST7735_WIDTH cfg \<and> unat height \<le> ST7735_WIDTH cfg"
    using that assms by (intro tft_draw_rect_count) simp_all
  show "\<exists>s'. tft_print_char cfg font ch s = Inr s' \<and>
          store_count (trace s') = store_count (trace s) + 70"
    if "35 \<le> ST7735_WIDTH cfg"
    by (simp add: tft_print_char_ok [OF that] store_count_append)
  show "store_count (trace (tft_draw_pixel cfg x y c s)) = store_count (trace s)"
    by simp
  show "\<exists>s'. tft_draw_bitmap cfg x y width height bitmap s = Inr s' \<and>
          store_count (trace s') = store_count (trace s)"
    if "2 * (unat width * unat height) < 2 ^ 31"
    by (simp add: tft_draw_bitmap_eq [OF that] store_count_append)
  show "static_tft_draw_line cfg lx ly lx1 ly1 c s = None \<or>
       (\<exists>s'. static_tft_draw_line cfg lx ly lx1 ly1 c s = Some s' \<and>
          store_count (trace s') = store_count (trace s))"
    using static_line_frame [of cfg lx ly lx1 ly1 c s]
    by (cases "static_tft_draw_line cfg lx ly lx1 ly1 c s") simp_all
qed

lemma scratch_buffer_stores_landscape:
  "ST7735_WIDTH panel_160x80 < 32768 \<and> unat (3 :: u16) \<le> ST7735_WIDTH panel_160x80 \<and>
   unat (2 :: u16) \<le> ST7735_WIDTH panel_160x80 \<and>
   sint (4 :: i16) \<le> int (ST7735_WIDTH panel_160x80) \<and>
   sint (5 :: i16) \<le> int (ST7735_HEIGHT panel_160x80) \<and>
   ST7735_HEIGHT panel_160x80 \<le> ST7735_WIDTH panel_160x80 \<and>
   int (ST7735_WIDTH panel_160x80) < sint (200 :: i16) \<and>
   35 \<le> ST7735_WIDTH panel_160x80 \<and>
   2 * (unat (3 :: u16) * unat (2 :: u16)) < (2 :: nat) ^ 31 \<and>
   (\<exists>s'. tft_fill_rect panel_160x80 0 0 3 2 0xF800 (init_state 0 0xFFFF) = Inr s' \<and>
      store_count (trace s') = 6) \<and>
   (\<exists>s'. static_tft_draw_fast_h_line panel_160x80 1 2 4 0xF800 (init_state 0 0xFFFF) = Inr s' \<and>
      store_count (trace s') = 8) \<and>
   (\<exists>s'. static_tft_draw_fast_v_line panel_160x80 1 2 5 0xF800 (init_state 0 0xFFFF) = Inr s' \<and>
      store_count (trace s') = 10) \<and>
   static_tft_draw_fast_v_line panel_160x80 1 2 200 0xF800 (init_state 0 0xFFFF) =
     Inl BufferOverflow \<and>
   (\<exists>s'. tft_draw_rect panel_160x80 0 0 3 2 0xF800 (init_state 0 0xFFFF) = Inr s' \<and>
      store_count (trace s') = 20) \<and>
   (\<exists>s'. tft_print_char panel_160x80 (\<lambda>i. 0x55) 0x41 (init_state 0 0xFFFF) = Inr s' \<and>
      store_count (trace s') = 70) \<and>
   (\<exists>s'. tft_draw_bitmap panel_160x80 0 0 3 2 (\<lambda>i. 0) (init_state 0 0xFFFF) = Inr s' \<and>
      store_count (trace s') = 0)"
proof -
  have w: "ST7735_WIDTH panel_160x80 < 32768"
    by (simp add: panel_160x80_def)
  have s0: "store_count (trace (init_state 0 0xFFFF)) = 0"
    by (simp add: init_state_def)
  show ?thesis
    using scratch_buffer_stores_per_call [OF w, where width = 3 and height = 2 and x = 0
        and y = 0 and c = "0xF800" and s = "init_state 0 0xFFFF" and w = 4 and h = 5
        and h' = 200 and lx = 1 and ly = 2 and font = "\<lambda>i. 0x55" and ch = "0x41"
        and bitmap = "\<lambda>i. 0" and ?lx1.0 = 9 and ?ly1.0 = 7]
    by (simp add: panel_160x80_def s0)
qed

section \<open>The addressing window and the single pixel\<close>

text \<open>
  C6. \<^verbatim>\<open>tft_set_window(x0, y0, x1, y1)\<close> changes nothing but the trace, to which it
  appends: command mode and the column-address-set byte \<open>0x2A\<close>; \<open>x0\<close> then \<open>x1\<close>,
  each in data mode as two bytes, high byte first; command mode and the
  row-address-set byte \<open>0x2B\<close>; \<open>y0\<close> then \<open>y1\<close> in the same way; command mode and
  the RAM-write byte \<open>0x2C\<close>. The bytes on the bus are exactly these eleven, and every
  16-bit data write sends the high byte before the low byte.
\<close>

theorem C6_set_window_bytes:
  "tft_set_window x0 y0 x1 y1 s =
     s\<lparr>trace := trace s @
        [DC_Low, SPI_Byte ST7735_CASET,
         DC_High, SPI_Byte (ucast (drop_bit 8 x0)), SPI_Byte (ucast x0),
         DC_High, SPI_Byte (ucast (drop_bit 8 x1)), SPI_Byte (ucast x1),
         DC_Low, SPI_Byte ST7735_RASET,
         DC_High, SPI_Byte (ucast (drop_bit 8 y0)), SPI_Byte (ucast y0),
         DC_High, SPI_Byte (ucast (drop_bit 8 y1)), SPI_Byte (ucast y1),
         DC_Low, SPI_Byte ST7735_RAMWR]\<rparr>
   \<and> spi_bytes (trace (tft_set_window x0 y0 x1 y1 s)) =
       spi_bytes (trace s) @
        [0x2A, ucast (drop_bit 8 x0), ucast x0, ucast (drop_bit 8 x1), ucast x1,
         0x2B, ucast (drop_bit 8 y0), ucast y0, ucast (drop_bit 8 y1), ucast y1,
         0x2C]
   \<and> write_data_16 v s =
       s\<lparr>trace := trace s @ [DC_High, SPI_Byte (ucast (drop_bit 8 v)), SPI_Byte (ucast v)]\<rparr>"
  by (simp add: tft_set_window_eq window_events_def spi_bytes_append hi_byte_def lo_byte_def
      write_data_16_def SPI_send_def DATA_MODE_def emit_def
      ST7735_CASET_def ST7735_RASET_def ST7735_RAMWR_def)

text \<open>
  C9. \<^verbatim>\<open>tft_draw_pixel(x, y, color)\<close> is: begin the transaction, one
  \<^verbatim>\<open>tft_set_window\<close> whose four bounds are the offset-corrected point
  \<open>(x + x_offset, y + y_offset)\<close> twice, one 16-bit data write of the colour, high byte
  first, end the transaction. The call makes no DMA transfer and no store into the
  scratch buffer, which it leaves as it was.
\<close>

theorem C9_draw_pixel_single_point:
  "tft_draw_pixel cfg x y c s =
     END_WRITE (write_data_16 c
       (tft_set_window (x + ST7735_X_OFFSET cfg) (y + ST7735_Y_OFFSET cfg)
                       (x + ST7735_X_OFFSET cfg) (y + ST7735_Y_OFFSET cfg) (BEGIN_WRITE s)))
   \<and> tft_draw_pixel cfg x y c s =
       s\<lparr>trace := trace s @ [CS_Low] @
          window_events (x + ST7735_X_OFFSET cfg) (y + ST7735_Y_OFFSET cfg)
                        (x + ST7735_X_OFFSET cfg) (y + ST7735_Y_OFFSET cfg) @
          [DC_High, SPI_Byte (ucast (drop_bit 8 c)), SPI_Byte (ucast c), CS_High]\<rparr>
   \<and> dma_count (trace (tft_draw_pixel cfg x y c s)) = dma_count (trace s)
   \<and> store_count (trace (tft_draw_pixel cfg x y c s)) = store_count (trace s)
   \<and> buffer (tft_draw_pixel cfg x y c s) = buffer s"
  by (simp add: tft_draw_pixel_eq dma_count_append store_count_append hi_byte_def lo_byte_def)
    (simp add: tft_set_window_eq write_data_16_def SPI_send_def DATA_MODE_def BEGIN_WRITE_def
      END_WRITE_def emit_def hi_byte_def lo_byte_def)

section \<open>Filled rectangle\<close>

text \<open>
  C3, as the code has it. For every width \<open>w\<close> that does not exceed the display width
  and is below 32768 (so that the 16-bit byte counter does not wrap), and every height
  \<open>h\<close>, \<^verbatim>\<open>tft_fill_rect(x, y, w, h, color)\<close> makes one fill of the scratch buffer,
  storing \<open>2 * w\<close> bytes from index 0 (\<open>w\<close> copies of the colour's two bytes, high byte
  first), sets the window to \<open>(x, y, x + w - 1, y + h - 1)\<close> after offset correction,
  and makes one DMA transfer of those \<open>2 * w\<close> bytes with repeat count \<open>h\<close>: \<open>2 * w * h\<close>
  bytes in all.
\<close>

theorem C3_fill_rect_one_fill_one_transfer:
  assumes "unat width \<le> ST7735_WIDTH cfg" and "unat width < 32768"
  shows "tft_fill_rect cfg x y width height c s =
     Inr (s\<lparr>buffer := write_at 0 (color_bytes (unat width) c) (buffer s),
            trace := trace s @ store_events 0 (color_bytes (unat width) c) @
              [CS_Low] @
              window_events (x + ST7735_X_OFFSET cfg) (y + ST7735_Y_OFFSET cfg)
                (x + ST7735_X_OFFSET cfg + width - 1) (y + ST7735_Y_OFFSET cfg + height - 1) @
              [DC_High, DMA_Block (color_bytes (unat width) c) (2 * width) height, CS_High]\<rparr>)
   \<and> color_bytes (unat width) c =
       concat (replicate (unat width) [ucast (drop_bit 8 c), ucast c])
   \<and> length (color_bytes (unat width) c) = 2 * unat width
   \<and> store_count (store_events 0 (color_bytes (unat width) c)) = 2 * unat width
   \<and> unat (2 * width) * unat height = 2 * unat width * unat height"
proof (intro conjI)
  show "tft_fill_rect cfg x y width height c s =
     Inr (s\<lparr>buffer := write_at 0 (color_bytes (unat width) c) (buffer s),
            trace := trace s @ store_events 0 (color_bytes (unat width) c) @
              [CS_Low] @
              window_events (x + ST7735_X_OFFSET cfg) (y + ST7735_Y_OFFSET cfg)
                (x + ST7735_X_OFFSET cfg + width - 1) (y + ST7735_Y_OFFSET cfg + height - 1) @
              [DC_High, DMA_Block (color_bytes (unat width) c) (2 * width) height, CS_High]\<rparr>)"
    using tft_fill_rect_ok [OF assms, of x y height c s] by simp
  show "color_bytes (unat width) c =
      concat (replicate (unat width) [ucast (drop_bit 8 c), ucast c])"
    by (simp add: color_bytes_def hi_byte_def lo_byte_def)
  show "length (color_bytes (unat width) c) = 2 * unat width"
    by simp
  show "store_count (store_events 0 (color_bytes (unat width) c)) = 2 * unat width"
    by simp
  have "unat (2 * width) = 2 * unat width"
    using assms(2) by (simp add: unat_word_ariths)
  then show "unat (2 * width) * unat height = 2 * unat width * unat height"
    by simp
qed

theorem C3_fill_rect_witness:
  "unat (3 :: u16) \<le> ST7735_WIDTH panel_160x80 \<and> unat (3 :: u16) < 32768 \<and>
   tft_fill_rect panel_160x80 10 20 3 2 0xF800 (init_state 0 0xFFFF) =
     Inr ((init_state 0 0xFFFF)
       \<lparr>buffer := write_at 0 [0xF8, 0, 0xF8, 0, 0xF8, 0] (\<lambda>i. 0),
        trace := [Buf_Store 0 0xF8, Buf_Store 1 0, Buf_Store 2 0xF8, Buf_Store 3 0,
                  Buf_Store 4 0xF8, Buf_Store 5 0, CS_Low] @
                 window_events 11 46 13 47 @
                 [DC_High, DMA_Block [0xF8, 0, 0xF8, 0, 0xF8, 0] 6 2, CS_High]\<rparr>)"
proof -
  have w: "unat (3 :: u16) \<le> ST7735_WIDTH panel_160x80" "unat (3 :: u16) < 32768"
    by (simp_all add: panel_160x80_def)
  have cb: "color_bytes (unat (3 :: u16)) 0xF800 = [0xF8, 0, 0xF8, 0, 0xF8, 0]"
    by code_simp
  show ?thesis
    using C3_fill_rect_one_fill_one_transfer [OF w, of 10 20 2 "0xF800" "init_state 0 0xFFFF"]
    unfolding cb
    by (simp add: panel_160x80_def init_state_def store_events_Cons)
qed

text \<open>
  One pixel more than the display is wide: the fill runs past the end of the scratch
  buffer, and nothing is transferred.
\<close>

theorem C3_fill_rect_counterexample:
  "tft_fill_rect panel_160x80 0 0 161 1 0xF800 (init_state 0 0xFFFF) = Inl BufferOverflow"
proof -
  have "buffer_store_list panel_160x80 0 (color_bytes (unat (161 :: u16)) 0xF800)
          (init_state 0 0xFFFF) = Inl BufferOverflow"
    by (rule buffer_store_list_overflow) (simp_all add: panel_160x80_def)
  then show ?thesis
    by (simp add: tft_fill_rect_def fill_rect_loop_eq Let_def)
qed

section \<open>Characters and strings\<close>

text \<open>
  C1, at a concrete input. On the 160 x 80 panel, after \<^verbatim>\<open>tft_set_cursor(0, 0)\<close> the
  cursor is \<open>(1, 26)\<close>. \<^verbatim>\<open>tft_print_char('A')\<close> then stores the 70 glyph bytes row by
  row (seven bit rows of five columns, each pixel the foreground or the background
  colour, high byte first), makes one \<^verbatim>\<open>tft_set_window\<close> call and one DMA transfer
  of the 70 bytes with repeat count 1. The window it sets is \<open>(1, 26, 5, 7)\<close>: its last
  bound is \<open>cursor_x + 6\<close>, where a cell of seven rows needs \<open>cursor_y + 6 = 32\<close>.
\<close>

theorem C1_print_char_window_at_cursor_1_26:
  "tft_print_char panel_160x80 font 0x41 (tft_set_cursor panel_160x80 0 0 (init_state 0 0xFFFF)) =
     Inr ((tft_set_cursor panel_160x80 0 0 (init_state 0 0xFFFF))
       \<lparr>buffer := write_at 0 (glyph_bytes font 0x41 0 0xFFFF) (\<lambda>i. 0),
        trace := store_events 0 (glyph_bytes font 0x41 0 0xFFFF) @ [CS_Low] @
                 window_events 1 26 5 7 @
                 [DC_High, DMA_Block (glyph_bytes font 0x41 0 0xFFFF) 70 1, CS_High]\<rparr>)
   \<and> cursor_x (tft_set_cursor panel_160x80 0 0 (init_state 0 0xFFFF)) = 1
   \<and> cursor_y (tft_set_cursor panel_160x80 0 0 (init_state 0 0xFFFF)) = 26
   \<and> window_events 1 26 5 7 \<noteq> window_events 1 26 5 (26 + 6)
   \<and> glyph_bytes font 0x41 0 0xFFFF =
       concat (map (\<lambda>i. concat (map (\<lambda>j.
         [ucast (drop_bit 8 (if font (5 * 65 + j) AND push_bit i 1 \<noteq> 0 then 0 else 0xFFFF :: u16)),
          ucast (if font (5 * 65 + j) AND push_bit i 1 \<noteq> 0 then 0 else 0xFFFF :: u16)])
         [0 ..< 5])) [0 ..< 7])
   \<and> length (glyph_bytes font 0x41 0 0xFFFF) = 70"
proof -
  have w: "35 \<le> ST7735_WIDTH panel_160x80"
    by (simp add: panel_160x80_def)
  have "lo_byte 7 \<noteq> lo_byte 32"
    by (simp add: lo_byte_def)
  then have ne: "window_events 1 26 5 7 \<noteq> window_events 1 26 5 (26 + 6)"
    by (simp add: window_events_def)
  have gb: "glyph_bytes font 0x41 0 0xFFFF =
       concat (map (\<lambda>i. concat (map (\<lambda>j.
         [ucast (drop_bit 8 (if font (5 * 65 + j) AND push_bit i 1 \<noteq> 0 then 0 else 0xFFFF :: u16)),
          ucast (if font (5 * 65 + j) AND push_bit i 1 \<noteq> 0 then 0 else 0xFFFF :: u16)])
         [0 ..< 5])) [0 ..< 7])"
    unfolding glyph_bytes_def glyph_rows_def glyph_cols_def glyph_pixel_def hi_byte_def
      lo_byte_def
    by simp
  have run: "tft_print_char panel_160x80 font 0x41
      (tft_set_cursor panel_160x80 0 0 (init_state 0 0xFFFF)) =
     Inr ((tft_set_cursor panel_160x80 0 0 (init_state 0 0xFFFF))
       \<lparr>buffer := write_at 0 (glyph_bytes font 0x41 0 0xFFFF) (\<lambda>i. 0),
        trace := store_events 0 (glyph_bytes font 0x41 0 0xFFFF) @ [CS_Low] @
                 window_events 1 26 5 7 @
                 [DC_High, DMA_Block (glyph_bytes font 0x41 0 0xFFFF) 70 1, CS_High]\<rparr>)"
    using tft_print_char_ok [OF w, of font "0x41"
        "tft_set_cursor panel_160x80 0 0 (init_state 0 0xFFFF)"]
    by (simp add: tft_set_cursor_def init_state_def panel_160x80_def)
  have cur: "cursor_x (tft_set_cursor panel_160x80 0 0 (init_state 0 0xFFFF)) = 1"
    "cursor_y (tft_set_cursor panel_160x80 0 0 (init_state 0 0xFFFF)) = 26"
    by (simp_all add: tft_set_cursor_def init_state_def panel_160x80_def)
  show ?thesis
    using run cur ne gb length_glyph_bytes [of font "0x41" 0 "0xFFFF"] by blast
qed

text \<open>
  C8. On a panel whose row buffer holds a glyph (70 bytes, so a width of at least 35
  pixels), \<^verbatim>\<open>tft_print_char(c)\<close> returns for every character and every prior state
  and leaves \<open>cursor_x\<close>, \<open>cursor_y\<close> and both colours as they were. For a string of
  \<open>n\<close> characters (none of them NUL), \<^verbatim>\<open>tft_print\<close> returns with \<open>cursor_x\<close> advanced
  by \<open>6 * n\<close> in 16-bit arithmetic and with \<open>cursor_y\<close> and both colours unchanged.
\<close>

theorem C8_print_char_keeps_cursor_print_advances:
  assumes "35 \<le> ST7735_WIDTH cfg" and "0 \<notin> set cs"
  shows "(\<exists>s'. tft_print_char cfg font c s = Inr s' \<and>
            cursor_x s' = cursor_x s \<and> cursor_y s' = cursor_y s \<and>
            color s' = color s \<and> bg_color s' = bg_color s)
       \<and> (\<exists>s'. tft_print cfg font cs s = Inr s' \<and>
            cursor_x s' = cursor_x s + 6 * of_nat (length cs) \<and>
            unat (cursor_x s') = (unat (cursor_x s) + 6 * length cs) mod 65536 \<and>
            cursor_y s' = cursor_y s \<and> color s' = color s \<and> bg_color s' = bg_color s)"
proof
  show "\<exists>s'. tft_print_char cfg font c s = Inr s' \<and>
            cursor_x s' = cursor_x s \<and> cursor_y s' = cursor_y s \<and>
            color s' = color s \<and> bg_color s' = bg_color s"
    by (simp add: tft_print_char_ok [OF assms(1)])
next
  obtain s' where s': "tft_print cfg font cs s = Inr s'"
      "cursor_x s' = cursor_x s + 6 * of_nat (length cs)" "cursor_y s' = cursor_y s"
      "color s' = color s" "bg_color s' = bg_color s"
    using tft_print_ok [OF assms, of font s] by blast
  have "unat (cursor_x s + 6 * of_nat (length cs)) =
      (unat (cursor_x s) + 6 * length cs) mod 65536"
    by (simp add: unat_word_ariths unat_of_nat mod_simps)
  with s' show "\<exists>s'. tft_print cfg font cs s = Inr s' \<and>
            cursor_x s' = cursor_x s + 6 * of_nat (length cs) \<and>
            unat (cursor_x s') = (unat (cursor_x s) + 6 * length cs) mod 65536 \<and>
            cursor_y s' = cursor_y s \<and> color s' = color s \<and> bg_color s' = bg_color s"
    by simp
qed

theorem C8_print_witness:
  "35 \<le> ST7735_WIDTH panel_160x80 \<and> 0 \<notin> set [0x48, 0x69 :: u8] \<and>
   (\<exists>s'. tft_print_char panel_160x80 (\<lambda>i. 0x55) 0x41 (init_state 0 0xFFFF) = Inr s' \<and>
      cursor_x s' = 0 \<and> cursor_y s' = 0 \<and> color s' = 0 \<and> bg_color s' = 0xFFFF) \<and>
   (\<exists>s'. tft_print panel_160x80 (\<lambda>i. 0x55) [0x48, 0x69] (init_state 0 0xFFFF) = Inr s' \<and>
      cursor_x s' = 12 \<and> cursor_y s' = 0 \<and> color s' = 0 \<and> bg_color s' = 0xFFFF)"
proof -
  have h: "35 \<le> ST7735_WIDTH panel_160x80" "0 \<notin> set [0x48, 0x69 :: u8]"
    by (simp_all add: panel_160x80_def)
  show ?thesis
    using h C8_print_char_keeps_cursor_print_advances
      [OF h, of "\<lambda>i. 0x55" "0x41" "init_state 0 0xFFFF"]
    by (auto simp: init_state_def simp del: tft_print.simps)
qed

section \<open>Lines\<close>

text \<open>
  C10. Let the major axis be \<open>y\<close> when \<open>|y1 - y0| > |x1 - x0|\<close> and \<open>x\<close> otherwise.
  If the larger major-axis coordinate of the two endpoints is below 32767 (the value of
  \<open>x1\<close> after the swaps, at which the loop counter would wrap), \<^verbatim>\<open>_tft_draw_line\<close>
  returns, and what it has done is to plot, one \<^verbatim>\<open>tft_draw_pixel\<close> call each, a list of
  exactly \<open>max |x1 - x0| |y1 - y0| + 1\<close> points whose major-axis coordinates are the
  smaller endpoint coordinate, that plus one, and so on: one point for each major-axis
  coordinate. Every point adds its own 23 events to the trace.
\<close>

theorem C10_general_line_pixel_count:
  assumes "(if \<bar>sint x1 - sint x0\<bar> < \<bar>sint y1 - sint y0\<bar>
            then max (sint y0) (sint y1) else max (sint x0) (sint x1)) < 32767"
  shows "\<exists>pts. static_tft_draw_line cfg x0 y0 x1 y1 c s = Some (draw_pixels cfg c pts s) \<and>
     int (length pts) = max \<bar>sint x1 - sint x0\<bar> \<bar>sint y1 - sint y0\<bar> + 1 \<and>
     map (if \<bar>sint x1 - sint x0\<bar> < \<bar>sint y1 - sint y0\<bar> then snd else fst) pts =
       map (\<lambda>k. (if \<bar>sint x1 - sint x0\<bar> < \<bar>sint y1 - sint y0\<bar>
                  then smin y0 y1 else smin x0 x1) + of_nat k) [0 ..< length pts] \<and>
     length (trace (draw_pixels cfg c pts s)) = length (trace s) + 23 * length pts"
proof (cases "\<bar>sint x1 - sint x0\<bar> < \<bar>sint y1 - sint y0\<bar>")
  case steep: True
  show ?thesis
  proof (cases "y1 <s y0")
    case True
    then have "sint y1 \<le> sint y0" "sint y0 < 32767"
      using assms steep by (simp_all add: word_sless_alt)
    from static_line_run [OF this, where st = True] show ?thesis
      using steep True
      by (auto simp: static_tft_draw_line_def Let_def diff_abs smin_def word_sle_eq word_sless_alt)
  next
    case False
    then have "sint y0 \<le> sint y1" "sint y1 < 32767"
      using assms steep by (simp_all add: word_sless_alt)
    from static_line_run [OF this, where st = True] show ?thesis
      using steep False
      by (auto simp: static_tft_draw_line_def Let_def diff_abs smin_def word_sle_eq word_sless_alt)
  qed
next
  case flat: False
  show ?thesis
  proof (cases "x1 <s x0")
    case True
    then have "sint x1 \<le> sint x0" "sint x0 < 32767"
      using assms flat by (simp_all add: word_sless_alt)
    from static_line_run [OF this, where st = False] show ?thesis
      using flat True
      by (auto simp: static_tft_draw_line_def Let_def diff_abs smin_def word_sle_eq word_sless_alt)
  next
    case False
    then have "sint x0 \<le> sint x1" "sint x1 < 32767"
      using assms flat by (simp_all add: word_sless_alt)
    from static_line_run [OF this, where st = False] show ?thesis
      using flat False
      by (auto simp: static_tft_draw_line_def Let_def diff_abs smin_def word_sle_eq word_sless_alt)
  qed
qed

theorem C10_general_line_witness:
  "(if \<bar>sint (1 :: i16) - sint (3 :: i16)\<bar> < \<bar>sint (2 :: i16) - sint (10 :: i16)\<bar>
    then max (sint (10 :: i16)) (sint (2 :: i16)) else max (sint (3 :: i16)) (sint (1 :: i16)))
     < 32767 \<and>
   (\<exists>pts. static_tft_draw_line panel_160x80 3 10 1 2 0xF800 (init_state 0 0xFFFF) =
        Some (draw_pixels panel_160x80 0xF800 pts (init_state 0 0xFFFF)) \<and>
      length pts = 9 \<and>
      map snd pts = [2, 3, 4, 5, 6, 7, 8, 9, 10])"
proof -
  have h: "(if \<bar>sint (1 :: i16) - sint (3 :: i16)\<bar> < \<bar>sint (2 :: i16) - sint (10 :: i16)\<bar>
    then max (sint (10 :: i16)) (sint (2 :: i16)) else max (sint (3 :: i16)) (sint (1 :: i16)))
     < 32767"
    by simp
  have nine: "[0 ..< 9] = [0, 1, 2, 3, 4, 5, 6, 7, 8 :: nat]"
    by (simp add: upt_rec)
  from C10_general_line_pixel_count [OF h, of panel_160x80 "0xF800" "init_state 0 0xFFFF"]
  obtain pts where
    run: "static_tft_draw_line panel_160x80 3 10 1 2 0xF800 (init_state 0 0xFFFF) =
        Some (draw_pixels panel_160x80 0xF800 pts (init_state 0 0xFFFF))"
    and len: "int (length pts) = max \<bar>sint (1 :: i16) - sint (3 :: i16)\<bar>
        \<bar>sint (2 :: i16) - sint (10 :: i16)\<bar> + 1"
    and major: "map (if \<bar>sint (1 :: i16) - sint (3 :: i16)\<bar> < \<bar>sint (2 :: i16) - sint (10 :: i16)\<bar>
        then snd else fst) pts =
       map (\<lambda>k. (if \<bar>sint (1 :: i16) - sint (3 :: i16)\<bar> < \<bar>sint (2 :: i16) - sint (10 :: i16)\<bar>
                  then smin 10 2 else smin 3 1) + of_nat k) [0 ..< length pts]"
    by blast
  from len have l9: "length pts = 9"
    by simp
  from major have "map snd pts = [2, 3, 4, 5, 6, 7, 8, 9, 10]"
    unfolding l9 nine by (simp add: smin_def)
  then show ?thesis
    by (intro conjI [OF h] exI [of _ pts]) (simp add: run l9)
qed

text \<open>
  C4. With \<open>x0 = x1\<close>, \<^verbatim>\<open>tft_draw_line\<close> is the call of the fast vertical helper at
  \<open>x0\<close> from the smaller to the larger of \<open>y0\<close>, \<open>y1\<close> (length: their difference plus
  one, as a 16-bit value). With \<open>y0 = y1\<close> and \<open>x0 \<noteq> x1\<close> it is the call of the fast
  horizontal helper over the ordered \<open>x\<close> range. In neither case is the outcome that of
  the general path: a fast helper fails or makes one DMA transfer, the general path
  plots pixel by pixel without any (and may not return at all).
\<close>

theorem C4_axis_aligned_lines_use_fast_helpers:
  "tft_draw_line cfg x0 y0 x0 y1 c s =
     Some (static_tft_draw_fast_v_line cfg x0 (smin y0 y1) (smax y0 y1 - smin y0 y1 + 1) c s)
   \<and> (x0 \<noteq> x1 \<longrightarrow>
       tft_draw_line cfg x0 y0 x1 y0 c s =
         Some (static_tft_draw_fast_h_line cfg (smin x0 x1) y0 (smax x0 x1 - smin x0 x1 + 1) c s))
   \<and> tft_draw_line cfg x0 y0 x0 y1 c s \<noteq>
       map_option Inr (static_tft_draw_line cfg x0 y0 x0 y1 c s)
   \<and> tft_draw_line cfg x0 y0 x1 y0 c s \<noteq>
       map_option Inr (static_tft_draw_line cfg x0 y0 x1 y0 c s)"
proof (intro conjI impI)
  show v: "tft_draw_line cfg x0 y0 x0 y1 c s =
     Some (static_tft_draw_fast_v_line cfg x0 (smin y0 y1) (smax y0 y1 - smin y0 y1 + 1) c s)"
    by (auto simp: tft_draw_line_def smin_def smax_def word_sle_eq word_sless_alt)
  show h: "tft_draw_line cfg x0 y0 x1 y0 c s =
     Some (static_tft_draw_fast_h_line cfg (smin x0 x1) y0 (smax x0 x1 - smin x0 x1 + 1) c s)"
    if "x0 \<noteq> x1"
    using that by (auto simp: tft_draw_line_def smin_def smax_def word_sle_eq word_sless_alt)
  show "tft_draw_line cfg x0 y0 x0 y1 c s \<noteq>
       map_option Inr (static_tft_draw_line cfg x0 y0 x0 y1 c s)"
    unfolding v by (rule fast_v_line_not_general)
  show "tft_draw_line cfg x0 y0 x1 y0 c s \<noteq>
       map_option Inr (static_tft_draw_line cfg x0 y0 x1 y0 c s)"
  proof (cases "x0 = x1")
    case True
    have "tft_draw_line cfg x0 y0 x0 y0 c s =
      Some (static_tft_draw_fast_v_line cfg x0 (smin y0 y0) (smax y0 y0 - smin y0 y0 + 1) c s)"
      by (auto simp: tft_draw_line_def smin_def smax_def word_sle_eq word_sless_alt)
    with True show ?thesis
      by (simp add: fast_v_line_not_general)
  next
    case False
    then show ?thesis
      unfolding h [OF False] by (simp add: fast_h_line_not_general)
  qed
qed

theorem C4_axis_aligned_witness:
  "(5 :: i16) \<noteq> 8 \<and>
   tft_draw_line panel_160x80 5 9 5 3 0xF800 (init_state 0 0xFFFF) =
     Some (static_tft_draw_fast_v_line panel_160x80 5 3 7 0xF800 (init_state 0 0xFFFF)) \<and>
   tft_draw_line panel_160x80 5 9 8 9 0xF800 (init_state 0 0xFFFF) =
     Some (static_tft_draw_fast_h_line panel_160x80 5 9 4 0xF800 (init_state 0 0xFFFF))"
  using C4_axis_aligned_lines_use_fast_helpers
    [of panel_160x80 5 9 3 "0xF800" "init_state 0 0xFFFF" 8]
  by (simp add: smin_def smax_def)

text \<open>
  C7. On the endpoints \<open>(0, 0)\<close> and \<open>(4, 2)\<close> the general path returns, having plotted
  exactly the five points \<open>(0, 0)\<close>, \<open>(1, 0)\<close>, \<open>(2, 1)\<close>, \<open>(3, 1)\<close>, \<open>(4, 2)\<close> in this
  order, one \<^verbatim>\<open>tft_draw_pixel\<close> call each: the \<open>x\<close> coordinates increase strictly from 0
  to 4, and consecutive \<open>y\<close> coordinates differ by at most 1.
\<close>

theorem C7_line_0_0_to_4_2:
  "static_tft_draw_line cfg 0 0 4 2 c s =
     Some (draw_pixels cfg c [(0, 0), (1, 0), (2, 1), (3, 1), (4, 2)] s)
   \<and> draw_pixels cfg c [(0, 0), (1, 0), (2, 1), (3, 1), (4, 2)] s =
       tft_draw_pixel cfg 4 2 c (tft_draw_pixel cfg 3 1 c (tft_draw_pixel cfg 2 1 c
         (tft_draw_pixel cfg 1 0 c (tft_draw_pixel cfg 0 0 c s))))
   \<and> length [(0, 0), (1, 0), (2, 1), (3, 1), (4, 2 :: u16) :: u16 \<times> u16] = 5
   \<and> sorted_wrt (\<lambda>a b. sint a < sint b)
       (map fst [(0, 0), (1, 0), (2, 1), (3, 1), (4, 2 :: u16) :: u16 \<times> u16])
   \<and> list_all (\<lambda>(a, b). \<bar>sint b - sint a\<bar> \<le> 1)
       (zip (map snd [(0, 0), (1, 0), (2, 1), (3, 1), (4, 2 :: u16) :: u16 \<times> u16])
            (tl (map snd [(0, 0), (1, 0), (2, 1), (3, 1), (4, 2 :: u16) :: u16 \<times> u16])))"
proof -
  have pts: "line_points False 4 2 1 (nat (sint (4 :: i16) + 1 - sint (0 :: i16))) 0 0 2 =
      [(0, 0), (1, 0), (2, 1), (3, 1), (4, 2)]"
    by code_simp
  have "line_loop cfg False 4 4 2 1 c 0 0 2 s =
      Some (draw_pixels cfg c
        (line_points False 4 2 1 (nat (sint (4 :: i16) + 1 - sint (0 :: i16))) 0 0 2) s)"
    by (rule line_loop_points) simp_all
  moreover have "static_tft_draw_line cfg 0 0 4 2 c s = line_loop cfg False 4 4 2 1 c 0 0 2 s"
    by (simp add: static_tft_draw_line_def Let_def diff_def word_sless_alt)
  ultimately have "static_tft_draw_line cfg 0 0 4 2 c s =
     Some (draw_pixels cfg c [(0, 0), (1, 0), (2, 1), (3, 1), (4, 2)] s)"
    unfolding pts by simp
  then show ?thesis
    by (simp add: draw_pixels_def)
qed

section \<open>Numbers\<close>

text \<open>
  C5. \<^verbatim>\<open>tft_print_number(-7)\<close> leaves in \<^verbatim>\<open>str\<close> the eleven characters
  \<^verbatim>\<open>"         -7"\<close> (nine spaces, minus, 7) and the terminating NUL, and prints exactly
  this string with \<^verbatim>\<open>tft_print\<close>; \<^verbatim>\<open>tft_print_number(0)\<close> does the same with
  \<^verbatim>\<open>"          0"\<close> (ten spaces, 0). For every \<^verbatim>\<open>int32_t\<close> but \<open>- 2 ^ 31\<close> the
  printed field is the text of the number (a minus sign if negative, then its decimal
  digits) preceded by as many spaces as make eleven characters, and nothing but
  \<^verbatim>\<open>str\<close> changes before the string is printed. At \<open>- 2 ^ 31\<close> the negation
  \<^verbatim>\<open>num = -num\<close> overflows, and no field is produced.
\<close>

theorem C5_print_number_fixed_field:
  "(\<exists>s1. number_to_str (- 7) s = Inr s1 \<and>
      str_bytes s1 = map of_char ''         -7'' @ [0] \<and>
      tft_print_number cfg font (- 7) s = tft_print cfg font (map of_char ''         -7'') s1)
   \<and> (\<exists>s1. number_to_str 0 s = Inr s1 \<and>
      str_bytes s1 = map of_char ''          0'' @ [0] \<and>
      tft_print_number cfg font 0 s = tft_print cfg font (map of_char ''          0'') s1)
   \<and> (sint num \<noteq> - (2 ^ 31) \<longrightarrow>
       (\<exists>s1. number_to_str num s = Inr s1 \<and> s1 = s\<lparr>str := str s1\<rparr> \<and>
          str_bytes s1 =
            replicate (11 - length (number_text num)) 0x20 @ number_text num @ [0] \<and>
          length (replicate (11 - length (number_text num)) 0x20 @ number_text num) = 11 \<and>
          tft_print_number cfg font num s =
            tft_print cfg font
              (replicate (11 - length (number_text num)) 0x20 @ number_text num) s1))
   \<and> sint (- 2147483648 :: i32) = - (2 ^ 31)
   \<and> number_to_str (- 2147483648) s = Inl SignedOverflow
   \<and> tft_print_number cfg font (- 2147483648) s = Inl SignedOverflow"
proof (intro conjI impI)
  have "sint (- 7 :: i32) \<noteq> - (2 ^ 31)"
    by simp
  from tft_print_number_field [OF this, of s cfg font]
  show "\<exists>s1. number_to_str (- 7) s = Inr s1 \<and>
      str_bytes s1 = map of_char ''         -7'' @ [0] \<and>
      tft_print_number cfg font (- 7) s = tft_print cfg font (map of_char ''         -7'') s1"
    unfolding t7 s7 by auto
  have "sint (0 :: i32) \<noteq> - (2 ^ 31)"
    by simp
  from tft_print_number_field [OF this, of s cfg font]
  show "\<exists>s1. number_to_str 0 s = Inr s1 \<and>
      str_bytes s1 = map of_char ''          0'' @ [0] \<and>
      tft_print_number cfg font 0 s = tft_print cfg font (map of_char ''          0'') s1"
    unfolding t0 s0 by auto
  show "\<exists>s1. number_to_str num s = Inr s1 \<and> s1 = s\<lparr>str := str s1\<rparr> \<and>
          str_bytes s1 =
            replicate (11 - length (number_text num)) 0x20 @ number_text num @ [0] \<and>
          length (replicate (11 - length (number_text num)) 0x20 @ number_text num) = 11 \<and>
          tft_print_number cfg font num s =
            tft_print cfg font
              (replicate (11 - length (number_text num)) 0x20 @ number_text num) s1"
    if "sint num \<noteq> - (2 ^ 31)"
    using tft_print_number_field [OF that] by blast
  show "sint (- 2147483648 :: i32) = - (2 ^ 31)"
    by simp
  show "number_to_str (- 2147483648) s = Inl SignedOverflow"
    by (rule number_to_str_min)
  show "tft_print_number cfg font (- 2147483648) s = Inl SignedOverflow"
    by (simp add: tft_print_number_def number_to_str_min)
qed

theorem C5_print_number_witness:
  "sint (1234 :: i32) \<noteq> - (2 ^ 31) \<and>
   (\<exists>s1. number_to_str 1234 (init_state 0 0xFFFF) = Inr s1 \<and>
      str_bytes s1 = map of_char ''       1234'' @ [0] \<and>
      tft_print_number panel_160x80 (\<lambda>i. 0x55) 1234 (init_state 0 0xFFFF) =
        tft_print panel_160x80 (\<lambda>i. 0x55) (map of_char ''       1234'') s1)"
proof -
  have h: "sint (1234 :: i32) \<noteq> - (2 ^ 31)"
    by simp
  have num: "number_text 1234 = [0x31, 0x32, 0x33, 0x34]"
    by (simp add: number_text_def decimal.simps word_sless_alt)
  have lit: "(map of_char ''       1234'' :: u8 list) =
      replicate (11 - length [0x31, 0x32, 0x33, 0x34 :: u8]) 0x20 @ [0x31, 0x32, 0x33, 0x34]"
    by (simp add: eval_nat_numeral)
  from C5_print_number_fixed_field
    [of "init_state 0 0xFFFF" panel_160x80 "\<lambda>i. 0x55" 1234] h
  have "\<exists>s1. number_to_str 1234 (init_state 0 0xFFFF) = Inr s1 \<and>
      s1 = (init_state 0 0xFFFF)\<lparr>str := str s1\<rparr> \<and>
      str_bytes s1 =
        replicate (11 - length (number_text 1234)) 0x20 @ number_text 1234 @ [0] \<and>
      length (replicate (11 - length (number_text 1234)) (0x20 :: u8) @ number_text 1234) = 11 \<and>
      tft_print_number panel_160x80 (\<lambda>i. 0x55) 1234 (init_state 0 0xFFFF) =
        tft_print panel_160x80 (\<lambda>i. 0x55)
          (replicate (11 - length (number_text 1234)) 0x20 @ number_text 1234) s1"
    by blast
  then show ?thesis
    unfolding num lit using h by auto
qed

section \<open>Capacity of the scratch buffer\<close>

text \<open>
  C2, at concrete inputs. The scratch buffer holds \<open>2 * ST7735_WIDTH\<close> bytes, one row.
  The fast vertical line fills it by the height of the line and sends the bytes once.
  On the panel in portrait, 80 wide and 160 high, a vertical line of 100 pixels lies
  within the panel; filling its 200 bytes runs past the 160 bytes of the buffer, through
  the helper, through \<^verbatim>\<open>tft_draw_line(0, 0, 0, 99)\<close> and, with height 160, through the
  outline of the whole screen \<^verbatim>\<open>tft_draw_rect(0, 0, 80, 160)\<close>. The same column drawn
  with \<^verbatim>\<open>tft_fill_rect(0, 0, 1, 100)\<close> stores two bytes and sends them with repeat
  count 100. On the 160 x 80 panel a fast vertical line of height 3 stores six bytes and
  sends them with repeat count 1.
\<close>

theorem C2_vertical_line_overruns_buffer:
  "sint (100 :: i16) \<le> int (ST7735_HEIGHT panel_80x160)
   \<and> static_tft_draw_fast_v_line panel_80x160 0 0 100 0xF800 (init_state 0 0xFFFF) =
       Inl BufferOverflow
   \<and> tft_draw_line panel_80x160 0 0 0 99 0xF800 (init_state 0 0xFFFF) =
       Some (Inl BufferOverflow)
   \<and> unat (80 :: u16) \<le> ST7735_WIDTH panel_80x160
   \<and> unat (160 :: u16) \<le> ST7735_HEIGHT panel_80x160
   \<and> tft_draw_rect panel_80x160 0 0 80 160 0xF800 (init_state 0 0xFFFF) = Inl BufferOverflow
   \<and> tft_fill_rect panel_80x160 0 0 1 100 0xF800 (init_state 0 0xFFFF) =
       Inr ((init_state 0 0xFFFF)
         \<lparr>buffer := write_at 0 [0xF8, 0] (\<lambda>i. 0),
          trace := [Buf_Store 0 0xF8, Buf_Store 1 0, CS_Low] @
                   window_events 26 1 26 100 @
                   [DC_High, DMA_Block [0xF8, 0] 2 100, CS_High]\<rparr>)
   \<and> static_tft_draw_fast_v_line panel_160x80 0 0 3 0xF800 (init_state 0 0xFFFF) =
       Inr ((init_state 0 0xFFFF)
         \<lparr>buffer := write_at 0 [0xF8, 0, 0xF8, 0, 0xF8, 0] (\<lambda>i. 0),
          trace := [Buf_Store 0 0xF8, Buf_Store 1 0, Buf_Store 2 0xF8, Buf_Store 3 0,
                    Buf_Store 4 0xF8, Buf_Store 5 0, CS_Low] @
                   window_events 1 26 1 28 @
                   [DC_High, DMA_Block [0xF8, 0, 0xF8, 0, 0xF8, 0] 6 1, CS_High]\<rparr>)"
proof -
  have over: "static_tft_draw_fast_v_line panel_80x160 x y 100 0xF800 s = Inl BufferOverflow"
    for x y s
    by (rule fast_v_line_overflow) (simp_all add: panel_80x160_def)
  have line: "tft_draw_line panel_80x160 0 0 0 99 0xF800 (init_state 0 0xFFFF) =
       Some (Inl BufferOverflow)"
    using over [of 0 0 "init_state 0 0xFFFF"]
    by (simp add: tft_draw_line_def word_sless_alt)
  have w80: "sint (80 :: i16) \<le> int (ST7735_WIDTH panel_80x160)"
    by (simp add: panel_80x160_def)
  obtain s1 where s1: "static_tft_draw_fast_h_line panel_80x160 0 0 80 0xF800
      (init_state 0 0xFFFF) = Inr s1"
    using fast_h_line_count [OF w80] by blast
  obtain s2 where s2: "static_tft_draw_fast_h_line panel_80x160 0 159 80 0xF800 s1 = Inr s2"
    using fast_h_line_count [OF w80] by blast
  have "static_tft_draw_fast_v_line panel_80x160 0 0 160 0xF800 s2 = Inl BufferOverflow"
    by (rule fast_v_line_overflow) (simp_all add: panel_80x160_def)
  then have rect: "tft_draw_rect panel_80x160 0 0 80 160 0xF800 (init_state 0 0xFFFF) =
      Inl BufferOverflow"
    using s1 s2 by (simp add: tft_draw_rect_def)
  have f1: "unat (1 :: u16) \<le> ST7735_WIDTH panel_80x160" "unat (1 :: u16) < 32768"
    by (simp_all add: panel_80x160_def)
  have cb1: "color_bytes (unat (1 :: u16)) 0xF800 = [0xF8, 0]"
    by code_simp
  have fill: "tft_fill_rect panel_80x160 0 0 1 100 0xF800 (init_state 0 0xFFFF) =
       Inr ((init_state 0 0xFFFF)
         \<lparr>buffer := write_at 0 [0xF8, 0] (\<lambda>i. 0),
          trace := [Buf_Store 0 0xF8, Buf_Store 1 0, CS_Low] @
                   window_events 26 1 26 100 @
                   [DC_High, DMA_Block [0xF8, 0] 2 100, CS_High]\<rparr>)"
    using tft_fill_rect_ok [OF f1, of 0 0 100 "0xF800" "init_state 0 0xFFFF"]
    unfolding cb1
    by (simp add: panel_80x160_def init_state_def store_events_Cons)
  have h3: "sint (3 :: i16) \<le> int (ST7735_WIDTH panel_160x80)"
    by (simp add: panel_160x80_def)
  have cb: "color_bytes (nat (sint (3 :: i16))) 0xF800 = [0xF8, 0, 0xF8, 0, 0xF8, 0]"
    by code_simp
  have v3: "static_tft_draw_fast_v_line panel_160x80 0 0 3 0xF800 (init_state 0 0xFFFF) =
     Inr ((init_state 0 0xFFFF)
       \<lparr>buffer := write_at 0 [0xF8, 0, 0xF8, 0, 0xF8, 0] (\<lambda>i. 0),
        trace := [Buf_Store 0 0xF8, Buf_Store 1 0, Buf_Store 2 0xF8, Buf_Store 3 0,
                  Buf_Store 4 0xF8, Buf_Store 5 0, CS_Low] @
                 window_events 1 26 1 28 @
                 [DC_High, DMA_Block [0xF8, 0, 0xF8, 0, 0xF8, 0] 6 1, CS_High]\<rparr>)"
    using fast_v_line_ok [OF h3, of 0 0 "0xF800" "init_state 0 0xFFFF"]
    unfolding cb
    by (simp add: panel_160x80_def init_state_def store_events_Cons)
  have dims: "sint (100 :: i16) \<le> int (ST7735_HEIGHT panel_80x160)"
    "unat (80 :: u16) \<le> ST7735_WIDTH panel_80x160"
    "unat (160 :: u16) \<le> ST7735_HEIGHT panel_80x160"
    by (simp_all add: panel_80x160_def)
  show ?thesis
    using dims over [of 0 0 "init_state 0 0xFFFF"] line rect fill v3 by blast
qed

end
